theory Spec2Isabelle
  imports Main "HOL-Library.AList"
begin

section \<open>Collections\<close>

text \<open>
  \<^verbatim>\<open>Collection\<close> (package @discordjs/collection) extends the JavaScript \<^verbatim>\<open>Map\<close>: keys are
  kept in insertion order, \<^verbatim>\<open>set\<close> on a key that is present replaces its value where it
  stands, \<^verbatim>\<open>get\<close> of an absent key is \<^verbatim>\<open>undefined\<close> (here \<open>None\<close>), and \<^verbatim>\<open>first()\<close> is
  the value inserted first (\<^verbatim>\<open>undefined\<close> for an empty collection).
\<close>

type_synonym ('k, 'v) collection = "('k \<times> 'v) list"

definition coll_get :: "'k \<Rightarrow> ('k, 'v) collection \<Rightarrow> 'v option" where
  "coll_get k c = map_of c k"

definition coll_has :: "'k \<Rightarrow> ('k, 'v) collection \<Rightarrow> bool" where
  "coll_has k c = (k \<in> fst ` set c)"

definition coll_set :: "'k \<Rightarrow> 'v \<Rightarrow> ('k, 'v) collection \<Rightarrow> ('k, 'v) collection" where
  "coll_set k v c = AList.update k v c"

definition coll_delete :: "'k \<Rightarrow> ('k, 'v) collection \<Rightarrow> ('k, 'v) collection" where
  "coll_delete k c = AList.delete k c"

definition coll_first :: "('k, 'v) collection \<Rightarrow> 'v option" where
  "coll_first c = (case c of [] \<Rightarrow> None | kv # _ \<Rightarrow> Some (snd kv))"

definition coll_keys :: "('k, 'v) collection \<Rightarrow> 'k set" where
  "coll_keys c = fst ` set c"

section \<open>Data\<close>

subsection \<open>The raw thread snapshot\<close>

text \<open>
  \<^verbatim>\<open>_patch(data)\<close> reads \<^verbatim>\<open>user.pk\<close> of every entry of \<^verbatim>\<open>data.users\<close> and
  \<^verbatim>\<open>data.left_users\<close>, \<^verbatim>\<open>item.item_id\<close> of every entry of \<^verbatim>\<open>data.items\<close>, and eight
  scalar attributes. Whatever else an entry carries is kept as an opaque payload.
\<close>

record raw_user =
  pk :: string
  user_payload :: string

record raw_item =
  item_id :: string
  item_payload :: string

record thread_data =
  data_users :: "raw_user list"
  data_left_users :: "raw_user list"
  data_items :: "raw_item list"
  data_admin_user_ids :: "string list"
  data_last_activity_at :: int
  data_muted :: bool
  data_is_pin :: bool
  data_named :: bool
  data_pending :: bool
  data_is_group :: bool
  data_thread_type :: string

subsection \<open>Objects of the other classes\<close>

text \<open>
  \<^verbatim>\<open>User.js\<close> and \<^verbatim>\<open>Message.js\<close> are not among the sources. A User object is
  represented by how it was made: the constructor call \<^verbatim>\<open>new User(client, user)\<close> and
  the \<^verbatim>\<open>_patch(user)\<close> calls applied to it since. User objects are shared by reference,
  so they live in a heap and the collections hold addresses. The constructor of User
  and \<^verbatim>\<open>User._patch\<close> are taken to touch nothing but the object they make or patch.
  A Message object is represented by the arguments it was made from, the chat's id and
  the item; Chat never mutates one. What else its constructor does is modelled below,
  with the merge.
\<close>

datatype user_obj = User_new raw_user | User_patched user_obj raw_user

datatype message = Message string raw_item

type_synonym addr = nat

subsection \<open>The runtime: network calls, events, timers, promises\<close>

datatype js_error = JsError string

text \<open>The calls Chat makes on \<^verbatim>\<open>client.ig\<close>, in the order they are issued.\<close>

datatype net_call =
  IndicateActivity string bool
  | ApproveThread string
  | BroadcastText string string
  | BroadcastVoice string string
  | BroadcastPhoto string string

datatype event = MessageCreate "message option"

text \<open>
  A scheduled timer runs one of the two arrow functions of \<^verbatim>\<open>startTyping\<close>.
  \<^verbatim>\<open>setTimeout\<close> schedules a one-shot timer, \<^verbatim>\<open>setInterval\<close> a repeating one.
\<close>

datatype callback = CallStopTyping | CallKeepTypingAlive

datatype timer = Timeout int callback | Interval int callback

type_synonym timer_id = nat

type_synonym promise_id = nat

text \<open>
  A call of a promise's \<^verbatim>\<open>resolve\<close> function with its argument (\<open>None\<close> is
  \<^verbatim>\<open>undefined\<close>), or its rejection (which \<^verbatim>\<open>new Promise\<close> performs when the executor
  throws).
\<close>

datatype settle = Resolve "message option" | Reject js_error

subsection \<open>The state\<close>

text \<open>
  The fields of the Chat object, then what it reaches through \<^verbatim>\<open>this.client\<close>, then
  the JavaScript runtime: the heap of User objects, the table of scheduled timers and
  the log of settle calls on the promises the send methods returned.
\<close>

record state =
  chat_id :: string
  messages :: "(string, message) collection"
  users :: "(string, addr) collection"
  leftUsers :: "(string, addr) collection"
  typing :: bool
  disableTypingOnSend :: "bool option"
  stopTypingTimeout :: "timer_id option"
  keepTypingAliveInterval :: "timer_id option"
  sentMessagesPromises :: "(string, promise_id) collection"
  adminUserIDs :: "string list"
  lastActivityAt :: int
  muted :: bool
  isPin :: bool
  named :: bool
  pending :: bool
  isGroup :: bool
  chat_type :: string
  self_ref :: nat
  cache_users :: "(string, addr) collection"
  cache_chats :: "(string, nat) collection"
  cache_pendingChats :: "(string, nat) collection"
  emitted :: "event list"
  net_log :: "net_call list"
  heap :: "user_obj list"
  timers :: "(timer_id \<times> timer) list"
  next_timer :: timer_id
  settled :: "(promise_id \<times> settle) list"
  next_promise :: promise_id

subsection \<open>Promises\<close>

text \<open>
  A promise is named by an identifier, and so is its \<^verbatim>\<open>resolve\<close> function. Every call
  of a settle function is logged; as in JavaScript, the first call on a promise decides
  its state.
\<close>

definition new_Promise :: "state \<Rightarrow> promise_id \<times> state" where
  "new_Promise s = (next_promise s, s\<lparr>next_promise := Suc (next_promise s)\<rparr>)"

definition resolve :: "promise_id \<Rightarrow> message option \<Rightarrow> state \<Rightarrow> state" where
  "resolve p v s = s\<lparr>settled := settled s @ [(p, Resolve v)]\<rparr>"

definition reject :: "promise_id \<Rightarrow> js_error \<Rightarrow> state \<Rightarrow> state" where
  "reject p e s = s\<lparr>settled := settled s @ [(p, Reject e)]\<rparr>"

text \<open>The state of promise \<open>p\<close>: \<open>None\<close> while it is pending.\<close>

definition promise_state :: "promise_id \<Rightarrow> state \<Rightarrow> settle option" where
  "promise_state p s = map_of (settled s) p"

text \<open>The settle calls made on promise \<open>p\<close>, in order.\<close>

definition settle_calls :: "promise_id \<Rightarrow> state \<Rightarrow> settle list" where
  "settle_calls p s = map snd (filter (\<lambda>c. fst c = p) (settled s))"

section \<open>The merge: \<^verbatim>\<open>Chat._patch\<close>\<close>

text \<open>\<^verbatim>\<open>new User(this.client, user)\<close>: a fresh object at the next free address.\<close>

definition new_User :: "raw_user \<Rightarrow> state \<Rightarrow> addr \<times> state" where
  "new_User user s = (length (heap s), s\<lparr>heap := heap s @ [User_new user]\<rparr>)"

text \<open>\<^verbatim>\<open>u._patch(user)\<close> on the User object at address \<open>u\<close>.\<close>

definition User_patch :: "addr \<Rightarrow> raw_user \<Rightarrow> state \<Rightarrow> state" where
  "User_patch u user s = s\<lparr>heap := (heap s)[u := User_patched (heap s ! u) user]\<rparr>"

text \<open>The callback of \<^verbatim>\<open>data.users.forEach\<close> (lines 60 to 69).\<close>

definition patch_user :: "raw_user \<Rightarrow> state \<Rightarrow> state" where
  "patch_user user s =
     (case coll_get (pk user) (cache_users s) of
        Some exisiting \<Rightarrow>
          (let s1 = s\<lparr>users := coll_set (pk user) exisiting (users s)\<rparr>
           in case coll_get (pk user) (users s1) of
                Some u \<Rightarrow> User_patch u user s1
              | None \<Rightarrow> s1)
      | None \<Rightarrow>
          (let (a, s1) = new_User user s;
               s2 = s1\<lparr>users := coll_set (pk user) a (users s1)\<rparr>
           in case coll_get (pk user) (users s2) of
                Some u \<Rightarrow> s2\<lparr>cache_users := coll_set (pk user) u (cache_users s2)\<rparr>
              | None \<Rightarrow> s2))"

text \<open>The callback of \<^verbatim>\<open>data.left_users.forEach\<close> (lines 70 to 79).\<close>

definition patch_left_user :: "raw_user \<Rightarrow> state \<Rightarrow> state" where
  "patch_left_user user s =
     (case coll_get (pk user) (cache_users s) of
        Some exisiting \<Rightarrow>
          (let s1 = s\<lparr>leftUsers := coll_set (pk user) exisiting (leftUsers s)\<rparr>
           in case coll_get (pk user) (leftUsers s1) of
                Some u \<Rightarrow> User_patch u user s1
              | None \<Rightarrow> s1)
      | None \<Rightarrow>
          (let (a, s1) = new_User user s;
               s2 = s1\<lparr>leftUsers := coll_set (pk user) a (leftUsers s1)\<rparr>
           in case coll_get (pk user) (leftUsers s2) of
                Some u \<Rightarrow> s2\<lparr>cache_users := coll_set (pk user) u (cache_users s2)\<rparr>
              | None \<Rightarrow> s2))"

text \<open>
  The client's cache of chats holds this very chat under its id:
  \<^verbatim>\<open>client.cache.chats.get(this.id) === this\<close>.
\<close>

definition in_chat_cache :: "state \<Rightarrow> bool" where
  "in_chat_cache s = (coll_get (chat_id s) (cache_chats s) = Some (self_ref s))"

text \<open>
  Modelled from the spec: the constructor of Message, \<^verbatim>\<open>new Message(client, chatID, item)\<close>
  (\<^verbatim>\<open>Message.js\<close> is not among the sources). By sections 3 and 4.2 of the spec, a
  pending-send waiter lives until a merge inserts its identifier, and the merge path
  then resolves and removes it; line 81 is the only step of the merge that handles an
  item, so the constructor is where that happens. The constructor is given the client
  and the chat's id, not the chat, so it reaches the chat's waiters through the client's
  cache of chats: it finds them when that cache holds this chat under its id, and then a
  waiter registered under the item's identifier is called with the new Message and
  removed. When the cache holds nothing or another chat object under that id, this
  chat's waiters are out of its reach.
\<close>

definition new_Message :: "raw_item \<Rightarrow> state \<Rightarrow> message \<times> state" where
  "new_Message item s =
     (let m = Message (chat_id s) item
      in if in_chat_cache s
         then (case coll_get (item_id item) (sentMessagesPromises s) of
                 Some p \<Rightarrow>
                   (let s1 = resolve p (Some m) s
                    in (m, s1\<lparr>sentMessagesPromises :=
                                 coll_delete (item_id item) (sentMessagesPromises s1)\<rparr>))
               | None \<Rightarrow> (m, s))
         else (m, s))"

text \<open>The callback of \<^verbatim>\<open>data.items.forEach\<close> (lines 80 to 82).\<close>

definition patch_item :: "raw_item \<Rightarrow> state \<Rightarrow> state" where
  "patch_item item s =
     (let (m, s1) = new_Message item s
      in s1\<lparr>messages := coll_set (item_id item) m (messages s1)\<rparr>)"

text \<open>
  \<^verbatim>\<open>_patch(data)\<close>: the three \<^verbatim>\<open>forEach\<close> loops in order, then the eight assignments.
  \<open>fold f [x, y] s = f y (f x s)\<close>, the order of \<^verbatim>\<open>forEach\<close>.
\<close>

definition Chat_patch :: "thread_data \<Rightarrow> state \<Rightarrow> state" where
  "Chat_patch d s =
     (let s1 = fold patch_user (data_users d) s;
          s2 = fold patch_left_user (data_left_users d) s1;
          s3 = fold patch_item (data_items d) s2
      in s3\<lparr>adminUserIDs := data_admin_user_ids d,
             lastActivityAt := data_last_activity_at d,
             muted := data_muted d,
             isPin := data_is_pin d,
             named := data_named d,
             pending := data_pending d,
             isGroup := data_is_group d,
             chat_type := data_thread_type d\<rparr>)"

text \<open>
  The constructor (lines 15 to 53): empty collections, \<^verbatim>\<open>typing = false\<close>, the three
  private handles \<^verbatim>\<open>null\<close>, then \<^verbatim>\<open>this._patch(data)\<close>. Its first argument is the part of
  the state that is not the new Chat's: the client's caches and logs and the runtime.
  The scalar attributes have no value before \<^verbatim>\<open>_patch\<close> assigns them.
\<close>

definition Chat_new :: "state \<Rightarrow> nat \<Rightarrow> string \<Rightarrow> thread_data \<Rightarrow> state" where
  "Chat_new client ref threadID d =
     Chat_patch d
       (client\<lparr>chat_id := threadID, messages := [], users := [], leftUsers := [],
          typing := False, disableTypingOnSend := None, stopTypingTimeout := None,
          keepTypingAliveInterval := None, sentMessagesPromises := [], self_ref := ref\<rparr>)"

text \<open>A client that has cached nothing and a runtime where nothing has happened yet.\<close>

definition fresh_client :: state where
  "fresh_client =
     \<lparr>chat_id = [], messages = [], users = [], leftUsers = [], typing = False,
      disableTypingOnSend = None, stopTypingTimeout = None, keepTypingAliveInterval = None,
      sentMessagesPromises = [], adminUserIDs = [], lastActivityAt = 0, muted = False,
      isPin = False, named = False, pending = False, isGroup = False, chat_type = [],
      self_ref = 0, cache_users = [], cache_chats = [], cache_pendingChats = [],
      emitted = [], net_log = [], heap = [], timers = [], next_timer = 0, settled = [],
      next_promise = 0\<rparr>"

text \<open>The states a Chat reaches by merges alone: constructed, then patched any number of times.\<close>

inductive merged :: "state \<Rightarrow> bool" where
  merged_new: "merged (Chat_new client ref threadID d)"
| merged_patch: "merged s \<Longrightarrow> merged (Chat_patch d s)"

section \<open>Typing indicator\<close>

text \<open>
  \<^verbatim>\<open>setTimeout\<close> and \<^verbatim>\<open>setInterval\<close> add a timer to the runtime's table and return its
  handle. \<^verbatim>\<open>clearTimeout\<close> and \<^verbatim>\<open>clearInterval\<close> work on the same table and differ in
  name only (Node's \<^verbatim>\<open>clearInterval\<close> calls \<^verbatim>\<open>clearTimeout\<close>), so one function stands for
  both: it cancels the timer with the given handle, of either kind.
\<close>

definition setTimeout :: "callback \<Rightarrow> int \<Rightarrow> state \<Rightarrow> timer_id \<times> state" where
  "setTimeout cb ms s =
     (next_timer s,
      s\<lparr>timers := timers s @ [(next_timer s, Timeout ms cb)], next_timer := Suc (next_timer s)\<rparr>)"

definition setInterval :: "callback \<Rightarrow> int \<Rightarrow> state \<Rightarrow> timer_id \<times> state" where
  "setInterval cb ms s =
     (next_timer s,
      s\<lparr>timers := timers s @ [(next_timer s, Interval ms cb)], next_timer := Suc (next_timer s)\<rparr>)"

definition clearTimer :: "timer_id \<Rightarrow> state \<Rightarrow> state" where
  "clearTimer h s = s\<lparr>timers := filter (\<lambda>t. fst t \<noteq> h) (timers s)\<rparr>"

text \<open>\<^verbatim>\<open>client.ig.realtime.direct.indicateActivity({threadId: this.id, isActive})\<close>.\<close>

definition indicateActivity :: "bool \<Rightarrow> state \<Rightarrow> state" where
  "indicateActivity isActive s = s\<lparr>net_log := net_log s @ [IndicateActivity (chat_id s) isActive]\<rparr>"

text \<open>
  The result of an awaited call: the network call of an async method either fulfils or
  rejects, and a rejection is thrown at the \<^verbatim>\<open>await\<close>.
\<close>

datatype 'a outcome = Fulfilled 'a | Rejected js_error

text \<open>
  \<^verbatim>\<open>_keepTypingAlive\<close> (lines 155 to 162). Nothing follows its \<^verbatim>\<open>await\<close> and no caller
  looks at the promise it returns.
\<close>

definition keepTypingAlive :: "state \<Rightarrow> state" where
  "keepTypingAlive s =
     (if typing s then indicateActivity True s
      else case keepTypingAliveInterval s of Some h \<Rightarrow> clearTimer h s | None \<Rightarrow> s)"

record typing_options =
  duration :: "int option"
  disableOnSend :: "bool option"

text \<open>
  \<^verbatim>\<open>startTyping\<close> (lines 171 to 180) runs up to its \<^verbatim>\<open>await\<close>, and resumes when the call
  has fulfilled; other code may run in between. \<^verbatim>\<open>duration || 10000\<close> is 10000 for an
  absent and for a zero duration.
\<close>

definition startTyping_begin :: "state \<Rightarrow> state" where
  "startTyping_begin s = indicateActivity True (s\<lparr>typing := True\<rparr>)"

definition startTyping_resume :: "typing_options \<Rightarrow> state \<Rightarrow> state" where
  "startTyping_resume opts s =
     (let s1 = s\<lparr>disableTypingOnSend :=
                   Some (case disableOnSend opts of Some b \<Rightarrow> b | None \<Rightarrow> True)\<rparr>;
          (t, s2) = setTimeout CallStopTyping
                      (case duration opts of
                         Some n \<Rightarrow> if n = 0 then 10000 else n
                       | None \<Rightarrow> 10000) s1;
          s3 = s2\<lparr>stopTypingTimeout := Some t\<rparr>;
          (i, s4) = setInterval CallKeepTypingAlive 9000 s3
      in s4\<lparr>keepTypingAliveInterval := Some i\<rparr>)"

definition startTyping :: "typing_options \<Rightarrow> unit outcome \<Rightarrow> state \<Rightarrow> unit outcome \<times> state" where
  "startTyping opts r s =
     (case r of
        Fulfilled _ \<Rightarrow> (Fulfilled (), startTyping_resume opts (startTyping_begin s))
      | Rejected e \<Rightarrow> (Rejected e, startTyping_begin s))"

text \<open>\<^verbatim>\<open>stopTyping\<close> (lines 186 to 193); nothing follows its \<^verbatim>\<open>await\<close>.\<close>

definition stopTyping_begin :: "state \<Rightarrow> state" where
  "stopTyping_begin s =
     (let s1 = (case keepTypingAliveInterval s of Some h \<Rightarrow> clearTimer h s | None \<Rightarrow> s)
      in indicateActivity False (s1\<lparr>typing := False\<rparr>))"

definition stopTyping :: "unit outcome \<Rightarrow> state \<Rightarrow> unit outcome \<times> state" where
  "stopTyping r s = (r, stopTyping_begin s)"

text \<open>
  The runtime fires a scheduled timer: a one-shot timer leaves the table and runs its
  callback, a repeating one stays. The callbacks are \<^verbatim>\<open>() => this.stopTyping()\<close> and
  \<^verbatim>\<open>() => this._keepTypingAlive()\<close>.
\<close>

fun run_callback :: "callback \<Rightarrow> state \<Rightarrow> state" where
  "run_callback CallStopTyping s = stopTyping_begin s"
| "run_callback CallKeepTypingAlive s = keepTypingAlive s"

definition fire :: "timer_id \<Rightarrow> state \<Rightarrow> state" where
  "fire h s =
     (case map_of (timers s) h of
        None \<Rightarrow> s
      | Some (Timeout ms cb) \<Rightarrow> run_callback cb (clearTimer h s)
      | Some (Interval ms cb) \<Rightarrow> run_callback cb s)"

text \<open>The one-shot and the repeating timers that are scheduled.\<close>

definition one_shot_timers :: "state \<Rightarrow> timer_id list" where
  "one_shot_timers s = map fst (filter (\<lambda>t. case snd t of Timeout ms cb \<Rightarrow> True | Interval ms cb \<Rightarrow> False) (timers s))"

definition repeating_timers :: "state \<Rightarrow> timer_id list" where
  "repeating_timers s = map fst (filter (\<lambda>t. case snd t of Timeout ms cb \<Rightarrow> False | Interval ms cb \<Rightarrow> True) (timers s))"

section \<open>Approve\<close>

text \<open>\<^verbatim>\<open>approve\<close> (lines 129 to 135): up to the \<^verbatim>\<open>await\<close>, and after it.\<close>

definition approve_begin :: "state \<Rightarrow> state" where
  "approve_begin s =
     (let s1 = s\<lparr>pending := False\<rparr>
      in s1\<lparr>net_log := net_log s1 @ [ApproveThread (chat_id s1)]\<rparr>)"

definition approve_resume :: "state \<Rightarrow> state" where
  "approve_resume s =
     (let s1 = (if \<not> coll_has (chat_id s) (cache_chats s)
                then s\<lparr>cache_chats := coll_set (chat_id s) (self_ref s) (cache_chats s)\<rparr>
                else s);
          s2 = s1\<lparr>cache_pendingChats := coll_delete (chat_id s1) (cache_pendingChats s1)\<rparr>
      in s2\<lparr>emitted := emitted s2 @ [MessageCreate (coll_first (messages s2))]\<rparr>)"

definition approve :: "unit outcome \<Rightarrow> state \<Rightarrow> unit outcome \<times> state" where
  "approve r s =
     (case r of
        Fulfilled _ \<Rightarrow> (Fulfilled (), approve_resume (approve_begin s))
      | Rejected e \<Rightarrow> (Rejected e, approve_begin s))"

section \<open>Sending\<close>

text \<open>
  Each send method returns \<^verbatim>\<open>new Promise((resolve) => ...)\<close>, and it is the \<^verbatim>\<open>resolve\<close>
  function of that promise that \<^verbatim>\<open>_sentMessagesPromises\<close> stores. The executor takes no
  \<^verbatim>\<open>reject\<close>: a promise of a send method is rejected only when its executor throws.
\<close>

text \<open>
  \<^verbatim>\<open>sendMessage\<close> (lines 203 to 214). The call makes the promise and issues
  \<^verbatim>\<open>broadcastText\<close>; the callback given to \<^verbatim>\<open>then\<close> runs later, when the broadcast has
  fulfilled with \<^verbatim>\<open>{item_id: itemID}\<close>, and merges may run in between. \<^verbatim>\<open>then\<close> is given
  no second argument and no \<^verbatim>\<open>catch\<close> follows, so a broadcast that rejects runs no code of
  Chat: the rejection stays with the promise \<^verbatim>\<open>then\<close> returned, which nobody holds (what
  the runtime does with an unhandled rejection is not modelled).
  \<^verbatim>\<open>!this._disableTypingOnSend\<close> is false for \<^verbatim>\<open>true\<close> only.
\<close>

definition sendMessage_call :: "string \<Rightarrow> state \<Rightarrow> promise_id \<times> state" where
  "sendMessage_call content s =
     (let (p, s1) = new_Promise s
      in (p, s1\<lparr>net_log := net_log s1 @ [BroadcastText (chat_id s1) content]\<rparr>))"

definition sendMessage_then :: "promise_id \<Rightarrow> string \<Rightarrow> state \<Rightarrow> state" where
  "sendMessage_then p itemID s =
     (let s1 = (if typing s \<and> disableTypingOnSend s \<noteq> Some True then keepTypingAlive s else s);
          s2 = s1\<lparr>sentMessagesPromises := coll_set itemID p (sentMessagesPromises s1)\<rparr>
      in if coll_has itemID (messages s2)
         then (let s3 = s2\<lparr>sentMessagesPromises := coll_delete itemID (sentMessagesPromises s2)\<rparr>
               in resolve p (coll_get itemID (messages s3)) s3)
         else s2)"

definition sendMessage_settled :: "promise_id \<Rightarrow> string outcome \<Rightarrow> state \<Rightarrow> state" where
  "sendMessage_settled p r s =
     (case r of Fulfilled itemID \<Rightarrow> sendMessage_then p itemID s | Rejected e \<Rightarrow> s)"

text \<open>\<^verbatim>\<open>sendVoice\<close> (lines 234 to 245).\<close>

definition sendVoice_call :: "string \<Rightarrow> state \<Rightarrow> promise_id \<times> state" where
  "sendVoice_call buffer s =
     (let (p, s1) = new_Promise s
      in (p, s1\<lparr>net_log := net_log s1 @ [BroadcastVoice (chat_id s1) buffer]\<rparr>))"

definition sendVoice_then :: "promise_id \<Rightarrow> string \<Rightarrow> state \<Rightarrow> state" where
  "sendVoice_then p itemID s =
     (let s1 = (if typing s \<and> disableTypingOnSend s \<noteq> Some True then keepTypingAlive s else s);
          s2 = s1\<lparr>sentMessagesPromises := coll_set itemID p (sentMessagesPromises s1)\<rparr>
      in if coll_has itemID (messages s2)
         then (let s3 = s2\<lparr>sentMessagesPromises := coll_delete itemID (sentMessagesPromises s2)\<rparr>
               in resolve p (coll_get itemID (messages s3)) s3)
         else s2)"

definition sendVoice_settled :: "promise_id \<Rightarrow> string outcome \<Rightarrow> state \<Rightarrow> state" where
  "sendVoice_settled p r s =
     (case r of Fulfilled itemID \<Rightarrow> sendVoice_then p itemID s | Rejected e \<Rightarrow> s)"

text \<open>
  \<^verbatim>\<open>sendPhoto\<close> (lines 256 to 272). \<^verbatim>\<open>Attachment.js\<close> is not among the sources, so what
  \<^verbatim>\<open>attachment._verify()\<close> does with the attachment is a parameter: it throws, or it
  returns a promise that rejects, or one that fulfils, after which \<^verbatim>\<open>attachment.file\<close>
  holds the bytes. A throw happens inside the executor of the returned promise, which
  rejects that promise; a rejection of the promise \<^verbatim>\<open>_verify()\<close> returned meets a \<^verbatim>\<open>then\<close>
  with one argument and no \<^verbatim>\<open>catch\<close>.
\<close>

datatype verify_outcome = VerifyThrows js_error | VerifyRejects js_error | VerifyFulfils string

definition sendPhoto_call :: "verify_outcome \<Rightarrow> state \<Rightarrow> promise_id \<times> state" where
  "sendPhoto_call v s =
     (let (p, s1) = new_Promise s
      in case v of VerifyThrows e \<Rightarrow> (p, reject p e s1) | _ \<Rightarrow> (p, s1))"

definition sendPhoto_verified :: "promise_id \<Rightarrow> verify_outcome \<Rightarrow> state \<Rightarrow> state" where
  "sendPhoto_verified p v s =
     (case v of
        VerifyFulfils file \<Rightarrow> s\<lparr>net_log := net_log s @ [BroadcastPhoto (chat_id s) file]\<rparr>
      | _ \<Rightarrow> s)"

definition sendPhoto_then :: "promise_id \<Rightarrow> string \<Rightarrow> state \<Rightarrow> state" where
  "sendPhoto_then p itemID s =
     (let s1 = (if typing s \<and> disableTypingOnSend s \<noteq> Some True then keepTypingAlive s else s);
          s2 = s1\<lparr>sentMessagesPromises := coll_set itemID p (sentMessagesPromises s1)\<rparr>
      in if coll_has itemID (messages s2)
         then (let s3 = s2\<lparr>sentMessagesPromises := coll_delete itemID (sentMessagesPromises s2)\<rparr>
               in resolve p (coll_get itemID (messages s3)) s3)
         else s2)"

definition sendPhoto_settled :: "promise_id \<Rightarrow> string outcome \<Rightarrow> state \<Rightarrow> state" where
  "sendPhoto_settled p r s =
     (case r of Fulfilled itemID \<Rightarrow> sendPhoto_then p itemID s | Rejected e \<Rightarrow> s)"

text \<open>
  A whole \<^verbatim>\<open>sendPhoto\<close> where nothing else runs in between: the call, the end of
  \<^verbatim>\<open>_verify()\<close>, and the end of the broadcast if one was issued.
\<close>

definition sendPhoto :: "verify_outcome \<Rightarrow> string outcome \<Rightarrow> state \<Rightarrow> promise_id \<times> state" where
  "sendPhoto v r s =
     (let (p, s1) = sendPhoto_call v s;
          s2 = sendPhoto_verified p v s1
      in case v of VerifyFulfils file \<Rightarrow> (p, sendPhoto_settled p r s2) | _ \<Rightarrow> (p, s2))"

section \<open>Notions used in the proofs\<close>

text \<open>
  The two member loops treat the shared cache and the heap alike: an entry whose
  \<^verbatim>\<open>pk\<close> is cached patches the cached object, any other entry appends a new object
  and caches its address.
\<close>

definition cache_step :: "raw_user \<Rightarrow> state \<Rightarrow> (string, addr) collection" where
  "cache_step r s =
     (case coll_get (pk r) (cache_users s) of
        Some a \<Rightarrow> cache_users s
      | None \<Rightarrow> coll_set (pk r) (length (heap s)) (cache_users s))"

definition heap_step :: "raw_user \<Rightarrow> state \<Rightarrow> user_obj list" where
  "heap_step r s =
     (case coll_get (pk r) (cache_users s) of
        Some a \<Rightarrow> (heap s)[a := User_patched (heap s ! a) r]
      | None \<Rightarrow> heap s @ [User_new r])"

definition entry_step :: "(raw_user \<Rightarrow> state \<Rightarrow> state) \<Rightarrow> bool" where
  "entry_step f = (\<forall>r s. cache_users (f r s) = cache_step r s \<and> heap (f r s) = heap_step r s)"

text \<open>Collection \<open>c\<close> holds under \<open>k\<close> the very object the shared cache holds under \<open>k\<close>.\<close>

definition holds_cached :: "string \<Rightarrow> (string, addr) collection \<Rightarrow> state \<Rightarrow> bool" where
  "holds_cached k c s = (coll_get k c = coll_get k (cache_users s) \<and> coll_has k (cache_users s))"

section \<open>Example inputs\<close>

text \<open>
  A group thread \<^verbatim>\<open>t1\<close> with member alice, departed member bob and one message, seen by
  a client that had cached nothing; then snapshots in which the two have changed
  sides, and in which alice has new data and carol has joined.
\<close>

definition ex_alice :: raw_user where
  "ex_alice = \<lparr>pk = ''1'', user_payload = ''alice''\<rparr>"

definition ex_alice2 :: raw_user where
  "ex_alice2 = \<lparr>pk = ''1'', user_payload = ''alice b''\<rparr>"

definition ex_bob :: raw_user where
  "ex_bob = \<lparr>pk = ''2'', user_payload = ''bob''\<rparr>"

definition ex_carol :: raw_user where
  "ex_carol = \<lparr>pk = ''3'', user_payload = ''carol''\<rparr>"

definition ex_item1 :: raw_item where
  "ex_item1 = \<lparr>item_id = ''m1'', item_payload = ''hello''\<rparr>"

definition ex_item2 :: raw_item where
  "ex_item2 = \<lparr>item_id = ''m2'', item_payload = ''hey''\<rparr>"

definition ex_data :: thread_data where
  "ex_data = \<lparr>data_users = [ex_alice], data_left_users = [ex_bob], data_items = [ex_item1],
     data_admin_user_ids = [''1''], data_last_activity_at = 100, data_muted = False,
     data_is_pin = False, data_named = False, data_pending = True, data_is_group = True,
     data_thread_type = ''group''\<rparr>"

definition ex_data2 :: thread_data where
  "ex_data2 = \<lparr>data_users = [ex_bob], data_left_users = [ex_alice], data_items = [ex_item2],
     data_admin_user_ids = [''2''], data_last_activity_at = 200, data_muted = True,
     data_is_pin = False, data_named = False, data_pending = True, data_is_group = True,
     data_thread_type = ''group''\<rparr>"

definition ex_data3 :: thread_data where
  "ex_data3 = \<lparr>data_users = [ex_alice2, ex_carol], data_left_users = [], data_items = [],
     data_admin_user_ids = [''1''], data_last_activity_at = 300, data_muted = False,
     data_is_pin = False, data_named = False, data_pending = False, data_is_group = True,
     data_thread_type = ''group''\<rparr>"

definition ex_chat :: state where
  "ex_chat = Chat_new fresh_client 1 ''t1'' ex_data"

text \<open>Typing sessions on that chat: started, stopped, started again; and started twice.\<close>

definition ex_opts :: typing_options where
  "ex_opts = \<lparr>duration = None, disableOnSend = None\<rparr>"

definition ex_typing :: state where
  "ex_typing = snd (startTyping ex_opts (Fulfilled ()) ex_chat)"

definition ex_stopped :: state where
  "ex_stopped = snd (stopTyping (Fulfilled ()) ex_typing)"

definition ex_typing_again :: state where
  "ex_typing_again = snd (startTyping ex_opts (Fulfilled ()) ex_stopped)"

definition ex_typing_twice :: state where
  "ex_typing_twice = snd (startTyping ex_opts (Fulfilled ()) ex_typing)"

text \<open>The client lists the chat among its pending chats.\<close>

definition ex_pending :: state where
  "ex_pending = ex_chat\<lparr>cache_pendingChats := [(''t1'', 1)]\<rparr>"

text \<open>
  A \<^verbatim>\<open>sendMessage\<close> whose broadcast fulfils with item \<^verbatim>\<open>m2\<close>, in both orders: the merge
  that brings \<^verbatim>\<open>m2\<close> runs before the response is processed, or after it.
\<close>

definition ex_sent :: state where
  "ex_sent = snd (sendMessage_call ''hey'' ex_chat)"

definition ex_merged_early :: state where
  "ex_merged_early = Chat_patch ex_data2 ex_sent"

definition ex_resolved :: state where
  "ex_resolved = sendMessage_settled 0 (Fulfilled ''m2'') ex_merged_early"







text \<open>Typing started twice and then stopped.\<close>

definition ex_twice_stopped :: state where
  "ex_twice_stopped = snd (stopTyping (Fulfilled ()) ex_typing_twice)"

section \<open>Facts about collections\<close>

lemma coll_has_keys: "coll_has k c = (k \<in> coll_keys c)"
  by (simp add: coll_has_def coll_keys_def)

lemma coll_get_None_iff: "(coll_get k c = None) = (k \<notin> coll_keys c)"
  by (simp add: coll_get_def coll_keys_def map_of_eq_None_iff)

lemma coll_keys_iff: "(k \<in> coll_keys c) = (\<exists>a. coll_get k c = Some a)"
  using coll_get_None_iff[of k c] by auto

lemma coll_keys_set: "coll_keys (coll_set k v c) = insert k (coll_keys c)"
  by (simp add: coll_keys_def coll_set_def AList.dom_update)

lemma coll_get_set: "coll_get k' (coll_set k v c) = (if k' = k then Some v else coll_get k' c)"
  by (simp add: coll_get_def coll_set_def AList.update_conv')

lemma coll_keys_delete: "coll_keys (coll_delete k c) = coll_keys c - {k}"
  by (auto simp add: coll_keys_def coll_delete_def AList.delete_eq)






section \<open>Properties of the merge\<close>

subsection \<open>What the loops leave alone\<close>

lemma patch_user_frame:
  "chat_id (patch_user u s) = chat_id s \<and> messages (patch_user u s) = messages s \<and>
   leftUsers (patch_user u s) = leftUsers s \<and> typing (patch_user u s) = typing s \<and>
   disableTypingOnSend (patch_user u s) = disableTypingOnSend s \<and>
   stopTypingTimeout (patch_user u s) = stopTypingTimeout s \<and>
   keepTypingAliveInterval (patch_user u s) = keepTypingAliveInterval s \<and>
   sentMessagesPromises (patch_user u s) = sentMessagesPromises s \<and>
   timers (patch_user u s) = timers s \<and> settled (patch_user u s) = settled s"
  by (simp add: patch_user_def User_patch_def new_User_def coll_get_set Let_def split: option.splits)

lemma patch_left_user_frame:
  "chat_id (patch_left_user u s) = chat_id s \<and> messages (patch_left_user u s) = messages s \<and>
   users (patch_left_user u s) = users s \<and> typing (patch_left_user u s) = typing s \<and>
   disableTypingOnSend (patch_left_user u s) = disableTypingOnSend s \<and>
   stopTypingTimeout (patch_left_user u s) = stopTypingTimeout s \<and>
   keepTypingAliveInterval (patch_left_user u s) = keepTypingAliveInterval s \<and>
   sentMessagesPromises (patch_left_user u s) = sentMessagesPromises s \<and>
   timers (patch_left_user u s) = timers s \<and> settled (patch_left_user u s) = settled s"
  by (simp add: patch_left_user_def User_patch_def new_User_def coll_get_set Let_def split: option.splits)

lemma patch_item_frame:
  "chat_id (patch_item i s) = chat_id s \<and> users (patch_item i s) = users s \<and>
   leftUsers (patch_item i s) = leftUsers s \<and> typing (patch_item i s) = typing s \<and>
   disableTypingOnSend (patch_item i s) = disableTypingOnSend s \<and>
   stopTypingTimeout (patch_item i s) = stopTypingTimeout s \<and>
   keepTypingAliveInterval (patch_item i s) = keepTypingAliveInterval s \<and>
   timers (patch_item i s) = timers s \<and>
   heap (patch_item i s) = heap s \<and> cache_users (patch_item i s) = cache_users s \<and>
   cache_chats (patch_item i s) = cache_chats s \<and> self_ref (patch_item i s) = self_ref s"
  by (simp add: patch_item_def new_Message_def resolve_def Let_def split: option.splits)

lemma fold_field:
  assumes "\<And>x s. g (f x s) = g s"
  shows "g (fold f xs s) = g s"
  using assms by (induction xs arbitrary: s) simp_all







lemma Chat_patch_scalars:
  "adminUserIDs (Chat_patch d s) = data_admin_user_ids d \<and>
   lastActivityAt (Chat_patch d s) = data_last_activity_at d \<and>
   muted (Chat_patch d s) = data_muted d \<and> isPin (Chat_patch d s) = data_is_pin d \<and>
   named (Chat_patch d s) = data_named d \<and> pending (Chat_patch d s) = data_pending d \<and>
   isGroup (Chat_patch d s) = data_is_group d \<and> chat_type (Chat_patch d s) = data_thread_type d"
  by (simp add: Chat_patch_def Let_def)

lemma Chat_patch_heap:
  "heap (Chat_patch d s) = heap (fold patch_left_user (data_left_users d) (fold patch_user (data_users d) s))"
  by (simp add: Chat_patch_def Let_def fold_field patch_item_frame)

lemma Chat_patch_cache_users:
  "cache_users (Chat_patch d s) =
   cache_users (fold patch_left_user (data_left_users d) (fold patch_user (data_users d) s))"
  by (simp add: Chat_patch_def Let_def fold_field patch_item_frame)

lemma Chat_patch_users:
  "users (Chat_patch d s) = users (fold patch_user (data_users d) s)"
  by (simp add: Chat_patch_def Let_def fold_field patch_item_frame patch_left_user_frame)

lemma Chat_patch_leftUsers:
  "leftUsers (Chat_patch d s) =
   leftUsers (fold patch_left_user (data_left_users d) (fold patch_user (data_users d) s))"
  by (simp add: Chat_patch_def Let_def fold_field patch_item_frame)



subsection \<open>Keys and entries of the three collections\<close>

lemma users_keys_patch_user: "coll_keys (users (patch_user u s)) = insert (pk u) (coll_keys (users s))"
  by (simp add: patch_user_def User_patch_def new_User_def coll_get_set coll_keys_set Let_def split: option.splits)

lemma users_keys_fold: "coll_keys (users (fold patch_user us s)) = pk ` set us \<union> coll_keys (users s)"
  by (induction us arbitrary: s) (auto simp: users_keys_patch_user)

lemma leftUsers_keys_patch_left_user: "coll_keys (leftUsers (patch_left_user u s)) = insert (pk u) (coll_keys (leftUsers s))"
  by (simp add: patch_left_user_def User_patch_def new_User_def coll_get_set coll_keys_set Let_def split: option.splits)

lemma leftUsers_keys_fold: "coll_keys (leftUsers (fold patch_left_user us s)) = pk ` set us \<union> coll_keys (leftUsers s)"
  by (induction us arbitrary: s) (auto simp: leftUsers_keys_patch_left_user)



lemma Chat_patch_users_keys:
  "coll_keys (users (Chat_patch d s)) = coll_keys (users s) \<union> pk ` set (data_users d)"
  by (auto simp add: Chat_patch_def Let_def fold_field patch_item_frame patch_left_user_frame users_keys_fold)

lemma Chat_patch_leftUsers_keys:
  "coll_keys (leftUsers (Chat_patch d s)) = coll_keys (leftUsers s) \<union> pk ` set (data_left_users d)"
  by (auto simp add: Chat_patch_def Let_def fold_field patch_item_frame patch_user_frame leftUsers_keys_fold)











subsection \<open>Waiters and settle calls\<close>

text \<open>
  The items loop on a chat the client's cache of chats holds: each item takes the
  waiter under its identifier out of the map and calls it. On any other chat the loop
  leaves waiters and settle calls alone.
\<close>

lemma patch_item_in_chat_cache: "in_chat_cache (patch_item x s) = in_chat_cache s"
  by (simp add: in_chat_cache_def patch_item_frame)



lemma fold_patch_item_chat_id: "chat_id (fold patch_item xs s) = chat_id s"
  by (induction xs arbitrary: s) (simp_all add: patch_item_frame)

lemma fold_patch_item_in_chat_cache: "in_chat_cache (fold patch_item xs s) = in_chat_cache s"
  by (induction xs arbitrary: s) (simp_all add: patch_item_in_chat_cache)












subsection \<open>The example chat\<close>

lemmas patch_defs = Chat_new_def Chat_patch_def patch_user_def patch_left_user_def patch_item_def
  User_patch_def new_User_def new_Message_def in_chat_cache_def resolve_def fresh_client_def
lemmas coll_defs = coll_get_def coll_has_def coll_set_def coll_delete_def coll_first_def coll_keys_def

lemma ex_chat_eval:
  "ex_chat =
     \<lparr>chat_id = ''t1'', messages = [(''m1'', Message ''t1'' ex_item1)], users = [(''1'', 0)],
      leftUsers = [(''2'', 1)], typing = False,
      disableTypingOnSend = None, stopTypingTimeout = None, keepTypingAliveInterval = None,
      sentMessagesPromises = [], adminUserIDs = [''1''], lastActivityAt = 100, muted = False,
      isPin = False, named = False, pending = True, isGroup = True, chat_type = ''group'',
      self_ref = 1, cache_users = [(''1'', 0), (''2'', 1)], cache_chats = [], cache_pendingChats = [],
      emitted = [], net_log = [], heap = [User_new ex_alice, User_new ex_bob], timers = [], next_timer = 0, settled = [],
      next_promise = 0\<rparr>"
  by (simp add: ex_chat_def patch_defs coll_defs Let_def ex_data_def ex_alice_def ex_bob_def ex_item1_def)

lemma ex_chat2_eval:
  "Chat_patch ex_data2 ex_chat =
     \<lparr>chat_id = ''t1'', messages = [(''m1'', Message ''t1'' ex_item1), (''m2'', Message ''t1'' ex_item2)],
      users = [(''1'', 0), (''2'', 1)],
      leftUsers = [(''2'', 1), (''1'', 0)], typing = False,
      disableTypingOnSend = None, stopTypingTimeout = None, keepTypingAliveInterval = None,
      sentMessagesPromises = [], adminUserIDs = [''2''], lastActivityAt = 200, muted = True,
      isPin = False, named = False, pending = True, isGroup = True, chat_type = ''group'',
      self_ref = 1, cache_users = [(''1'', 0), (''2'', 1)], cache_chats = [], cache_pendingChats = [],
      emitted = [], net_log = [],
      heap = [User_patched (User_new ex_alice) ex_alice, User_patched (User_new ex_bob) ex_bob],
      timers = [], next_timer = 0, settled = [],
      next_promise = 0\<rparr>"
  by (simp add: ex_chat_eval patch_defs coll_defs Let_def ex_data2_def ex_alice_def ex_bob_def ex_item2_def)

lemma ex_chat3_eval:
  "Chat_patch ex_data3 ex_chat =
     \<lparr>chat_id = ''t1'', messages = [(''m1'', Message ''t1'' ex_item1)],
      users = [(''1'', 0), (''3'', 2)],
      leftUsers = [(''2'', 1)], typing = False,
      disableTypingOnSend = None, stopTypingTimeout = None, keepTypingAliveInterval = None,
      sentMessagesPromises = [], adminUserIDs = [''1''], lastActivityAt = 300, muted = False,
      isPin = False, named = False, pending = False, isGroup = True, chat_type = ''group'',
      self_ref = 1, cache_users = [(''1'', 0), (''2'', 1), (''3'', 2)], cache_chats = [], cache_pendingChats = [],
      emitted = [], net_log = [],
      heap = [User_patched (User_new ex_alice) ex_alice2, User_new ex_bob, User_new ex_carol],
      timers = [], next_timer = 0, settled = [],
      next_promise = 0\<rparr>"
  by (simp add: ex_chat_eval patch_defs coll_defs Let_def ex_data3_def ex_alice2_def ex_carol_def)

lemmas send_defs = sendMessage_call_def sendMessage_then_def sendMessage_settled_def new_Promise_def
  resolve_def reject_def promise_state_def settle_calls_def

lemma ex_sent_eval:
  "ex_sent = ex_chat\<lparr>net_log := [BroadcastText ''t1'' ''hey''], next_promise := 1\<rparr>"
  by (simp add: ex_sent_def send_defs ex_chat_eval Let_def)

lemma ex_merged_early_eval:
  "ex_merged_early = (Chat_patch ex_data2 ex_chat)\<lparr>net_log := [BroadcastText ''t1'' ''hey''], next_promise := 1\<rparr>"
  by (simp add: ex_merged_early_def ex_sent_eval ex_chat2_eval)
     (simp add: ex_chat_eval patch_defs coll_defs Let_def ex_data2_def ex_alice_def ex_bob_def ex_item2_def)



lemma ex_resolved_eval:
  "ex_resolved = (Chat_patch ex_data2 ex_chat)\<lparr>net_log := [BroadcastText ''t1'' ''hey''],
      next_promise := 1, settled := [(0, Resolve (Some (Message ''t1'' ex_item2)))]\<rparr>"
  by (simp add: ex_resolved_def ex_merged_early_eval ex_chat2_eval send_defs coll_defs Let_def)



subsection \<open>Scalar attributes\<close>

text \<open>
  Claim C7. The merge is idempotent on the scalar thread attributes: \<^verbatim>\<open>_patch\<close> with the
  same snapshot applied twice leaves \<^verbatim>\<open>adminUserIDs\<close>, \<^verbatim>\<open>lastActivityAt\<close>, \<^verbatim>\<open>muted\<close>,
  \<^verbatim>\<open>isPin\<close>, \<^verbatim>\<open>named\<close>, \<^verbatim>\<open>pending\<close>, \<^verbatim>\<open>isGroup\<close> and \<^verbatim>\<open>type\<close> as one application
  leaves them, and after a merge each of them is the snapshot's field, whatever it was
  before.
\<close>

theorem Chat_patch_scalars_idempotent: 
  "adminUserIDs (Chat_patch d (Chat_patch d s)) = adminUserIDs (Chat_patch d s) \<and>
   lastActivityAt (Chat_patch d (Chat_patch d s)) = lastActivityAt (Chat_patch d s) \<and>
   muted (Chat_patch d (Chat_patch d s)) = muted (Chat_patch d s) \<and>
   isPin (Chat_patch d (Chat_patch d s)) = isPin (Chat_patch d s) \<and>
   named (Chat_patch d (Chat_patch d s)) = named (Chat_patch d s) \<and>
   pending (Chat_patch d (Chat_patch d s)) = pending (Chat_patch d s) \<and>
   isGroup (Chat_patch d (Chat_patch d s)) = isGroup (Chat_patch d s) \<and>
   chat_type (Chat_patch d (Chat_patch d s)) = chat_type (Chat_patch d s) \<and>
   adminUserIDs (Chat_patch d s) = data_admin_user_ids d \<and>
   lastActivityAt (Chat_patch d s) = data_last_activity_at d \<and>
   muted (Chat_patch d s) = data_muted d \<and>
   isPin (Chat_patch d s) = data_is_pin d \<and>
   named (Chat_patch d s) = data_named d \<and>
   pending (Chat_patch d s) = data_pending d \<and>
   isGroup (Chat_patch d s) = data_is_group d \<and>
   chat_type (Chat_patch d s) = data_thread_type d"
  by (simp add: Chat_patch_scalars)

theorem Chat_patch_scalars_idempotent_witness:
  "adminUserIDs (Chat_patch ex_data2 (Chat_patch ex_data2 ex_chat)) = [''2''] \<and>
   lastActivityAt (Chat_patch ex_data2 (Chat_patch ex_data2 ex_chat)) = 200 \<and>
   muted (Chat_patch ex_data2 (Chat_patch ex_data2 ex_chat)) = True \<and>
   muted ex_chat = False"
proof -
  have "muted ex_chat = False" by (simp add: ex_chat_eval)
  then show ?thesis using Chat_patch_scalars_idempotent[of ex_data2 ex_chat] by (simp add: ex_data2_def)
qed

subsection \<open>Frame\<close>




subsection \<open>Members and departed members\<close>

text \<open>
  Claim C2, as the code has it. A merge adds the ids listed as members to \<^verbatim>\<open>users\<close> and
  the ids listed as departed members to \<^verbatim>\<open>leftUsers\<close>, and takes nothing out of either:
  the ids of \<^verbatim>\<open>users\<close> after the merge are those before it and the listed members, the
  ids of \<^verbatim>\<open>leftUsers\<close> those before it and the listed departed members. An id that a
  merge lists on one side stays on the other side if it was there.
\<close>

theorem Chat_patch_member_ids:
  "coll_keys (users (Chat_patch d s)) = coll_keys (users s) \<union> pk ` set (data_users d) \<and>
   coll_keys (leftUsers (Chat_patch d s)) = coll_keys (leftUsers s) \<union> pk ` set (data_left_users d)"
  by (simp add: Chat_patch_users_keys Chat_patch_leftUsers_keys)

theorem Chat_patch_member_ids_witness:
  "coll_keys (users (Chat_patch ex_data2 ex_chat)) = {''1'', ''2''} \<and>
   coll_keys (leftUsers (Chat_patch ex_data2 ex_chat)) = {''1'', ''2''}"
  using Chat_patch_member_ids[of ex_data2 ex_chat]
  by (auto simp add: ex_chat_eval coll_keys_def ex_data2_def ex_alice_def ex_bob_def)

text \<open>
  The claim as stated, that an id is never in both collections, fails after two merges:
  alice (\<^verbatim>\<open>pk\<close> 1) is a member in the snapshot the chat is constructed from and a
  departed member in the next one, and is then a key of \<^verbatim>\<open>users\<close> and of \<^verbatim>\<open>leftUsers\<close>.
\<close>

theorem member_and_departed_counterexample:
  "merged (Chat_patch ex_data2 ex_chat) \<and>
   coll_has ''1'' (users (Chat_patch ex_data2 ex_chat)) \<and>
   coll_has ''1'' (leftUsers (Chat_patch ex_data2 ex_chat)) \<and>
   coll_keys (users (Chat_patch ex_data2 ex_chat)) \<inter>
     coll_keys (leftUsers (Chat_patch ex_data2 ex_chat)) \<noteq> {}"
proof -
  have "merged (Chat_patch ex_data2 ex_chat)"
    unfolding ex_chat_def by (intro merged_patch merged_new)
  then show ?thesis by (simp add: ex_chat2_eval coll_has_def coll_keys_def)
qed

subsection \<open>The shared cache and the heap\<close>

lemma entry_step_patch_user: "entry_step patch_user"
  by (simp add: entry_step_def cache_step_def heap_step_def patch_user_def User_patch_def
      new_User_def coll_get_set Let_def split: option.splits)

lemma entry_step_patch_left_user: "entry_step patch_left_user"
  by (simp add: entry_step_def cache_step_def heap_step_def patch_left_user_def User_patch_def
      new_User_def coll_get_set Let_def split: option.splits)

text \<open>
  Both member loops are instances of \<open>entry_step\<close>; what follows holds for either.
\<close>

lemma step_length:
  assumes "entry_step f"
  shows "length (heap (f r s)) = length (heap s) + (if pk r \<in> coll_keys (cache_users s) then 0 else 1)"
  using assms coll_get_None_iff[of "pk r" "cache_users s"]
  by (auto simp: entry_step_def heap_step_def split: option.splits)

lemma step_keys:
  assumes "entry_step f"
  shows "coll_keys (cache_users (f r s)) = insert (pk r) (coll_keys (cache_users s))"
  using assms coll_get_None_iff[of "pk r" "cache_users s"]
  by (auto simp: entry_step_def cache_step_def coll_keys_set split: option.splits)

lemma step_cache_keep:
  assumes "entry_step f" "coll_get k (cache_users s) = Some a"
  shows "coll_get k (cache_users (f r s)) = Some a"
  using assms by (auto simp: entry_step_def cache_step_def coll_get_set split: option.splits)

lemma fold_cache_keep:
  assumes "entry_step f" "coll_get k (cache_users s) = Some a"
  shows "coll_get k (cache_users (fold f rs s)) = Some a"
  using assms(2) by (induction rs arbitrary: s) (simp_all add: step_cache_keep[OF assms(1)])

lemma fold_length_mono:
  assumes "entry_step f"
  shows "length (heap s) \<le> length (heap (fold f rs s))"
proof (induction rs arbitrary: s)
  case Nil
  show ?case by simp
next
  case (Cons r rs)
  have "length (heap s) \<le> length (heap (f r s))" by (simp add: step_length[OF assms])
  also have "\<dots> \<le> length (heap (fold f rs (f r s)))" by (rule Cons.IH)
  finally show ?case by simp
qed

lemma fold_keys:
  assumes "entry_step f"
  shows "coll_keys (cache_users (fold f rs s)) = pk ` set rs \<union> coll_keys (cache_users s)"
  by (induction rs arbitrary: s) (auto simp: step_keys[OF assms])

lemma card_new_keys:
  assumes "finite U"
  shows "card (insert k U - K) = (if k \<in> K then 0 else 1) + card (U - insert k K)"
proof (cases "k \<in> K")
  case True
  then have "insert k U - K = U - insert k K" by blast
  then have "card (insert k U - K) = card (U - insert k K)" by (rule arg_cong)
  with True show ?thesis by (simp only: if_True add_0)
next
  case False
  then have "insert k U - K = insert k (U - insert k K)" by blast
  then have "card (insert k U - K) = card (insert k (U - insert k K))" by (rule arg_cong)
  also have "\<dots> = Suc (card (U - insert k K))"
    by (rule card_insert_disjoint) (use assms in blast)+
  finally show ?thesis using False by (simp only: if_False plus_1_eq_Suc)
qed

lemma fold_length:
  assumes "entry_step f"
  shows "length (heap (fold f rs s)) = length (heap s) + card (pk ` set rs - coll_keys (cache_users s))"
proof (induction rs arbitrary: s)
  case Nil
  show ?case by simp
next
  case (Cons r rs)
  have "length (heap (fold f (r # rs) s)) =
        length (heap (f r s)) + card (pk ` set rs - coll_keys (cache_users (f r s)))"
    using Cons.IH[of "f r s"] by simp
  also have "\<dots> = length (heap s) + ((if pk r \<in> coll_keys (cache_users s) then 0 else 1)
        + card (pk ` set rs - insert (pk r) (coll_keys (cache_users s))))"
    by (simp add: step_length[OF assms] step_keys[OF assms])
  also have "\<dots> = length (heap s) + card (insert (pk r) (pk ` set rs) - coll_keys (cache_users s))"
    using card_new_keys[of "pk ` set rs" "pk r" "coll_keys (cache_users s)"] by simp
  finally show ?case by simp
qed

lemma step_old_lookup:
  assumes "entry_step f" "a < length (heap s)"
  shows "(coll_get k (cache_users (f r s)) = Some a) = (coll_get k (cache_users s) = Some a)"
  using assms by (auto simp: entry_step_def cache_step_def coll_get_set split: option.splits if_splits)

lemma fold_old_lookup:
  assumes "entry_step f" "a < length (heap s)"
  shows "(coll_get k (cache_users (fold f rs s)) = Some a) = (coll_get k (cache_users s) = Some a)"
  using assms(2)
proof (induction rs arbitrary: s)
  case Nil
  show ?case by simp
next
  case (Cons r rs)
  have "a < length (heap (f r s))" using Cons.prems by (simp add: step_length[OF assms(1)])
  then show ?case
    using Cons.IH[of "f r s"] step_old_lookup[OF assms(1) Cons.prems] by simp
qed

lemma step_old_object:
  assumes "entry_step f" "a < length (heap s)"
  shows "heap (f r s) ! a =
    (if coll_get (pk r) (cache_users s) = Some a then User_patched (heap s ! a) r else heap s ! a)"
  using assms by (auto simp: entry_step_def heap_step_def nth_append split: option.splits)

lemma fold_old_object:
  assumes "entry_step f" "a < length (heap s)"
  shows "heap (fold f rs s) ! a =
    foldl User_patched (heap s ! a) (filter (\<lambda>r. coll_get (pk r) (cache_users s) = Some a) rs)"
  using assms(2)
proof (induction rs arbitrary: s)
  case Nil
  show ?case by simp
next
  case (Cons r rs)
  have lt: "a < length (heap (f r s))" using Cons.prems by (simp add: step_length[OF assms(1)])
  have same: "(\<lambda>x. coll_get (pk x) (cache_users (f r s)) = Some a) =
              (\<lambda>x. coll_get (pk x) (cache_users s) = Some a)"
    by (rule ext) (rule step_old_lookup[OF assms(1) Cons.prems])
  show ?case
    using Cons.IH[OF lt] by (simp add: same step_old_object[OF assms(1) Cons.prems])
qed

lemma fold_new_entry:
  assumes "entry_step f" "coll_get k (cache_users s) = None"
    and "coll_get k (cache_users (fold f rs s)) = Some a"
  shows "length (heap s) \<le> a \<and> a < length (heap (fold f rs s)) \<and> k \<in> pk ` set rs"
  using assms(2,3)
proof (induction rs arbitrary: s)
  case Nil
  then show ?case by simp
next
  case (Cons r rs)
  show ?case
  proof (cases "coll_get k (cache_users (f r s))")
    case None
    have "length (heap s) \<le> length (heap (f r s))" by (simp add: step_length[OF assms(1)])
    with Cons.IH[OF None] Cons.prems(2) show ?thesis by auto
  next
    case (Some b)
    then have "coll_get k (cache_users (fold f rs (f r s))) = Some b"
      by (rule fold_cache_keep[OF assms(1)])
    with Cons.prems(2) have ab: "a = b" by simp
    from Some Cons.prems(1) assms(1) have kb: "k = pk r \<and> b = length (heap s)"
      by (auto simp: entry_step_def cache_step_def coll_get_set split: option.splits if_splits)
    have "pk r \<notin> coll_keys (cache_users s)"
      using Cons.prems(1) kb coll_get_None_iff[of k "cache_users s"] by simp
    then have "length (heap (f r s)) = Suc (length (heap s))"
      by (simp add: step_length[OF assms(1)])
    moreover have "length (heap (f r s)) \<le> length (heap (fold f rs (f r s)))"
      by (rule fold_length_mono[OF assms(1)])
    ultimately show ?thesis using ab kb by simp
  qed
qed

subsection \<open>The local collection holds the cached object\<close>

lemma patch_user_holds: "holds_cached (pk r) (users (patch_user r s)) (patch_user r s)"
  by (simp add: holds_cached_def patch_user_def User_patch_def new_User_def coll_get_set
      coll_has_keys coll_keys_set Let_def coll_keys_iff split: option.splits)

lemma patch_left_user_holds:
  "holds_cached (pk r) (leftUsers (patch_left_user r s)) (patch_left_user r s)"
  by (simp add: holds_cached_def patch_left_user_def User_patch_def new_User_def coll_get_set
      coll_has_keys coll_keys_set Let_def coll_keys_iff split: option.splits)

lemma patch_user_keeps_holding:
  "holds_cached k (users s) s \<Longrightarrow> holds_cached k (users (patch_user r s)) (patch_user r s)"
  by (auto simp add: holds_cached_def patch_user_def User_patch_def new_User_def coll_get_set
      coll_has_keys coll_keys_set Let_def coll_keys_iff split: option.splits)

lemma patch_left_user_keeps_holding:
  "holds_cached k (leftUsers s) s \<Longrightarrow>
   holds_cached k (leftUsers (patch_left_user r s)) (patch_left_user r s)"
  by (auto simp add: holds_cached_def patch_left_user_def User_patch_def new_User_def coll_get_set
      coll_has_keys coll_keys_set Let_def coll_keys_iff split: option.splits)

lemma fold_patch_user_keeps_holding:
  "holds_cached k (users s) s \<Longrightarrow>
   holds_cached k (users (fold patch_user rs s)) (fold patch_user rs s)"
  by (induction rs arbitrary: s) (simp_all add: patch_user_keeps_holding)

lemma fold_patch_left_user_keeps_holding:
  "holds_cached k (leftUsers s) s \<Longrightarrow>
   holds_cached k (leftUsers (fold patch_left_user rs s)) (fold patch_left_user rs s)"
  by (induction rs arbitrary: s) (simp_all add: patch_left_user_keeps_holding)

lemma fold_patch_user_holds:
  "r \<in> set rs \<Longrightarrow> holds_cached (pk r) (users (fold patch_user rs s)) (fold patch_user rs s)"
proof (induction rs arbitrary: s)
  case Nil
  then show ?case by simp
next
  case (Cons x rs)
  show ?case
  proof (cases "r \<in> set rs")
    case True
    then show ?thesis using Cons.IH[of "patch_user x s"] by simp
  next
    case False
    with Cons.prems have "r = x" by simp
    then show ?thesis
      using fold_patch_user_keeps_holding[OF patch_user_holds[of x s], of rs] by simp
  qed
qed

lemma fold_patch_left_user_holds:
  "r \<in> set rs \<Longrightarrow>
   holds_cached (pk r) (leftUsers (fold patch_left_user rs s)) (fold patch_left_user rs s)"
proof (induction rs arbitrary: s)
  case Nil
  then show ?case by simp
next
  case (Cons x rs)
  show ?case
  proof (cases "r \<in> set rs")
    case True
    then show ?thesis using Cons.IH[of "patch_left_user x s"] by simp
  next
    case False
    with Cons.prems have "r = x" by simp
    then show ?thesis
      using fold_patch_left_user_keeps_holding[OF patch_left_user_holds[of x s], of rs] by simp
  qed
qed

text \<open>
  A later loop that leaves the collection alone and only extends the cache.
\<close>

lemma holds_cached_later:
  assumes "entry_step f" and "holds_cached k c s"
  shows "holds_cached k c (fold f rs s)"
proof -
  from assms(2) obtain a where a: "coll_get k (cache_users s) = Some a"
    by (auto simp: holds_cached_def coll_has_keys coll_keys_iff)
  then have "coll_get k (cache_users (fold f rs s)) = Some a"
    by (rule fold_cache_keep[OF assms(1)])
  with a assms(2) show ?thesis
    by (auto simp: holds_cached_def coll_has_keys coll_keys_iff)
qed

lemma holds_cached_cong:
  "cache_users s = cache_users t \<Longrightarrow> holds_cached k c s = holds_cached k c t"
  by (simp add: holds_cached_def)

lemma Chat_patch_users_hold:
  assumes "r \<in> set (data_users d)"
  shows "holds_cached (pk r) (users (Chat_patch d s)) (Chat_patch d s)"
proof -
  let ?s1 = "fold patch_user (data_users d) s"
  have "holds_cached (pk r) (users ?s1) ?s1" using assms by (rule fold_patch_user_holds)
  then have "holds_cached (pk r) (users ?s1) (fold patch_left_user (data_left_users d) ?s1)"
    by (rule holds_cached_later[OF entry_step_patch_left_user])
  then show ?thesis
    by (simp add: Chat_patch_users holds_cached_cong[OF Chat_patch_cache_users])
qed

lemma Chat_patch_leftUsers_hold:
  assumes "r \<in> set (data_left_users d)"
  shows "holds_cached (pk r) (leftUsers (Chat_patch d s)) (Chat_patch d s)"
proof -
  let ?s2 = "fold patch_left_user (data_left_users d) (fold patch_user (data_users d) s)"
  have "holds_cached (pk r) (leftUsers ?s2) ?s2" using assms by (rule fold_patch_left_user_holds)
  then show ?thesis
    by (simp add: Chat_patch_leftUsers holds_cached_cong[OF Chat_patch_cache_users])
qed

lemma Chat_patch_cache_keep:
  assumes "coll_get k (cache_users s) = Some a"
  shows "coll_get k (cache_users (Chat_patch d s)) = Some a"
  unfolding Chat_patch_cache_users
  by (intro fold_cache_keep[OF entry_step_patch_left_user] fold_cache_keep[OF entry_step_patch_user] assms)

lemma Chat_patch_new_entry:
  assumes "coll_get k (cache_users s) = None" "coll_get k (cache_users (Chat_patch d s)) = Some a"
  shows "length (heap s) \<le> a \<and> a < length (heap (Chat_patch d s)) \<and>
         k \<in> pk ` set (data_users d @ data_left_users d)"
proof -
  let ?s1 = "fold patch_user (data_users d) s"
  let ?s2 = "fold patch_left_user (data_left_users d) ?s1"
  have fin: "coll_get k (cache_users ?s2) = Some a" using assms(2) by (simp add: Chat_patch_cache_users)
  have mono1: "length (heap s) \<le> length (heap ?s1)" by (rule fold_length_mono[OF entry_step_patch_user])
  have mono2: "length (heap ?s1) \<le> length (heap ?s2)" by (rule fold_length_mono[OF entry_step_patch_left_user])
  show ?thesis
  proof (cases "coll_get k (cache_users ?s1)")
    case None
    from fold_new_entry[OF entry_step_patch_left_user None fin] mono1
    show ?thesis by (auto simp: Chat_patch_heap)
  next
    case (Some b)
    then have "coll_get k (cache_users ?s2) = Some b" by (rule fold_cache_keep[OF entry_step_patch_left_user])
    with fin have "a = b" by simp
    with fold_new_entry[OF entry_step_patch_user assms(1) Some] mono2
    show ?thesis by (auto simp: Chat_patch_heap)
  qed
qed

lemma card_two_loops:
  assumes "finite U" "finite L"
  shows "card (U - K) + card (L - (U \<union> K)) = card ((U \<union> L) - K)"
proof -
  have "(U \<union> L) - K = (U - K) \<union> (L - (U \<union> K))" by blast
  then have "card ((U \<union> L) - K) = card ((U - K) \<union> (L - (U \<union> K)))" by (rule arg_cong)
  also have "\<dots> = card (U - K) + card (L - (U \<union> K))"
    by (rule card_Un_disjoint) (use assms in blast)+
  finally show ?thesis by (rule sym)
qed

lemma Chat_patch_heap_length:
  "length (heap (Chat_patch d s)) =
   length (heap s) + card (pk ` set (data_users d @ data_left_users d) - coll_keys (cache_users s))"
proof -
  let ?U = "pk ` set (data_users d)" and ?L = "pk ` set (data_left_users d)"
  let ?K = "coll_keys (cache_users s)"
  have "length (heap (Chat_patch d s)) = length (heap s) + (card (?U - ?K) + card (?L - (?U \<union> ?K)))"
    by (simp add: Chat_patch_heap fold_length[OF entry_step_patch_left_user]
        fold_length[OF entry_step_patch_user] fold_keys[OF entry_step_patch_user])
  also have "card (?U - ?K) + card (?L - (?U \<union> ?K)) = card ((?U \<union> ?L) - ?K)"
    by (rule card_two_loops) simp_all
  finally show ?thesis by (simp add: image_Un)
qed

lemma Chat_patch_old_object:
  assumes "a < length (heap s)"
  shows "heap (Chat_patch d s) ! a =
    foldl User_patched (heap s ! a)
      (filter (\<lambda>r. coll_get (pk r) (cache_users s) = Some a) (data_users d @ data_left_users d))"
proof -
  let ?s1 = "fold patch_user (data_users d) s"
  have lt: "a < length (heap ?s1)"
    using assms fold_length_mono[OF entry_step_patch_user, of s "data_users d"] by simp
  have same: "(\<lambda>r. coll_get (pk r) (cache_users ?s1) = Some a) =
              (\<lambda>r. coll_get (pk r) (cache_users s) = Some a)"
    by (rule ext) (rule fold_old_lookup[OF entry_step_patch_user assms])
  show ?thesis
    by (simp add: Chat_patch_heap fold_old_object[OF entry_step_patch_left_user lt]
        fold_old_object[OF entry_step_patch_user assms] same)
qed

text \<open>
  Claim C8. For every entry of \<^verbatim>\<open>data.users\<close> (and likewise of \<^verbatim>\<open>data.left_users\<close>): if
  its \<^verbatim>\<open>pk\<close> is in the shared cache before the merge, then after the merge the local
  collection holds under that \<^verbatim>\<open>pk\<close> the address the cache held, and the cache still
  holds it; if the \<^verbatim>\<open>pk\<close> is not in the cache, the local collection and the cache hold
  under it one and the same address, of an object made during this merge. The merge
  makes exactly one User object for each listed \<^verbatim>\<open>pk\<close> the cache did not have and none
  for the others. An object that existed before the merge has been patched, in order,
  with exactly the entries whose \<^verbatim>\<open>pk\<close> the cache mapped to it.
\<close>

theorem Chat_patch_reuses_cached_users:
  "(\<forall>r \<in> set (data_users d).
      (\<forall>a. coll_get (pk r) (cache_users s) = Some a \<longrightarrow>
           coll_get (pk r) (users (Chat_patch d s)) = Some a \<and>
           coll_get (pk r) (cache_users (Chat_patch d s)) = Some a) \<and>
      (coll_get (pk r) (cache_users s) = None \<longrightarrow>
         (\<exists>a. length (heap s) \<le> a \<and> a < length (heap (Chat_patch d s)) \<and>
              coll_get (pk r) (users (Chat_patch d s)) = Some a \<and>
              coll_get (pk r) (cache_users (Chat_patch d s)) = Some a))) \<and>
   (\<forall>r \<in> set (data_left_users d).
      (\<forall>a. coll_get (pk r) (cache_users s) = Some a \<longrightarrow>
           coll_get (pk r) (leftUsers (Chat_patch d s)) = Some a \<and>
           coll_get (pk r) (cache_users (Chat_patch d s)) = Some a) \<and>
      (coll_get (pk r) (cache_users s) = None \<longrightarrow>
         (\<exists>a. length (heap s) \<le> a \<and> a < length (heap (Chat_patch d s)) \<and>
              coll_get (pk r) (leftUsers (Chat_patch d s)) = Some a \<and>
              coll_get (pk r) (cache_users (Chat_patch d s)) = Some a))) \<and>
   length (heap (Chat_patch d s)) =
     length (heap s) + card (pk ` set (data_users d @ data_left_users d) - coll_keys (cache_users s)) \<and>
   (\<forall>a < length (heap s).
      heap (Chat_patch d s) ! a =
        foldl User_patched (heap s ! a)
          (filter (\<lambda>r. coll_get (pk r) (cache_users s) = Some a) (data_users d @ data_left_users d)))"
proof (intro conjI ballI allI impI)
  fix r a assume r: "r \<in> set (data_users d)" and a: "coll_get (pk r) (cache_users s) = Some a"
  from a show c: "coll_get (pk r) (cache_users (Chat_patch d s)) = Some a" by (rule Chat_patch_cache_keep)
  with Chat_patch_users_hold[OF r, of s] show "coll_get (pk r) (users (Chat_patch d s)) = Some a"
    by (simp add: holds_cached_def)
next
  fix r assume r: "r \<in> set (data_users d)" and n: "coll_get (pk r) (cache_users s) = None"
  from Chat_patch_users_hold[OF r, of s] obtain a
    where a: "coll_get (pk r) (cache_users (Chat_patch d s)) = Some a"
      and u: "coll_get (pk r) (users (Chat_patch d s)) = Some a"
    by (auto simp: holds_cached_def coll_has_keys coll_keys_iff)
  with Chat_patch_new_entry[OF n a]
  show "\<exists>a. length (heap s) \<le> a \<and> a < length (heap (Chat_patch d s)) \<and>
            coll_get (pk r) (users (Chat_patch d s)) = Some a \<and>
            coll_get (pk r) (cache_users (Chat_patch d s)) = Some a" by blast
next
  fix r a assume r: "r \<in> set (data_left_users d)" and a: "coll_get (pk r) (cache_users s) = Some a"
  from a show c: "coll_get (pk r) (cache_users (Chat_patch d s)) = Some a" by (rule Chat_patch_cache_keep)
  with Chat_patch_leftUsers_hold[OF r, of s] show "coll_get (pk r) (leftUsers (Chat_patch d s)) = Some a"
    by (simp add: holds_cached_def)
next
  fix r assume r: "r \<in> set (data_left_users d)" and n: "coll_get (pk r) (cache_users s) = None"
  from Chat_patch_leftUsers_hold[OF r, of s] obtain a
    where a: "coll_get (pk r) (cache_users (Chat_patch d s)) = Some a"
      and u: "coll_get (pk r) (leftUsers (Chat_patch d s)) = Some a"
    by (auto simp: holds_cached_def coll_has_keys coll_keys_iff)
  with Chat_patch_new_entry[OF n a]
  show "\<exists>a. length (heap s) \<le> a \<and> a < length (heap (Chat_patch d s)) \<and>
            coll_get (pk r) (leftUsers (Chat_patch d s)) = Some a \<and>
            coll_get (pk r) (cache_users (Chat_patch d s)) = Some a" by blast
next
  show "length (heap (Chat_patch d s)) =
     length (heap s) + card (pk ` set (data_users d @ data_left_users d) - coll_keys (cache_users s))"
    by (rule Chat_patch_heap_length)
next
  fix a assume "a < length (heap s)"
  then show "heap (Chat_patch d s) ! a =
        foldl User_patched (heap s ! a)
          (filter (\<lambda>r. coll_get (pk r) (cache_users s) = Some a) (data_users d @ data_left_users d))"
    by (rule Chat_patch_old_object)
qed

theorem Chat_patch_reuses_cached_users_witness:
  "ex_alice2 \<in> set (data_users ex_data3) \<and>
   coll_get (pk ex_alice2) (cache_users ex_chat) = Some 0 \<and>
   coll_get (pk ex_alice2) (users (Chat_patch ex_data3 ex_chat)) = Some 0 \<and>
   coll_get (pk ex_alice2) (cache_users (Chat_patch ex_data3 ex_chat)) = Some 0 \<and>
   heap ex_chat ! 0 = User_new ex_alice \<and>
   heap (Chat_patch ex_data3 ex_chat) ! 0 = User_patched (User_new ex_alice) ex_alice2 \<and>
   ex_carol \<in> set (data_users ex_data3) \<and>
   coll_get (pk ex_carol) (cache_users ex_chat) = None \<and>
   coll_get (pk ex_carol) (users (Chat_patch ex_data3 ex_chat)) = Some 2 \<and>
   coll_get (pk ex_carol) (cache_users (Chat_patch ex_data3 ex_chat)) = Some 2 \<and>
   length (heap ex_chat) = 2 \<and>
   length (heap (Chat_patch ex_data3 ex_chat)) = 3"
proof -
  have m1: "ex_alice2 \<in> set (data_users ex_data3)" and m2: "ex_carol \<in> set (data_users ex_data3)"
    by (simp_all add: ex_data3_def)
  have c1: "coll_get (pk ex_alice2) (cache_users ex_chat) = Some 0"
    and c2: "coll_get (pk ex_carol) (cache_users ex_chat) = None"
    by (simp_all add: ex_chat_eval coll_get_def ex_alice2_def ex_carol_def)
  have h: "heap ex_chat ! 0 = User_new ex_alice" "length (heap ex_chat) = 2" "0 < length (heap ex_chat)"
    by (simp_all add: ex_chat_eval)
  have after: "coll_get (pk ex_carol) (users (Chat_patch ex_data3 ex_chat)) = Some 2"
    "coll_get (pk ex_carol) (cache_users (Chat_patch ex_data3 ex_chat)) = Some 2"
    "length (heap (Chat_patch ex_data3 ex_chat)) = 3"
    by (simp_all add: ex_chat3_eval coll_get_def ex_carol_def)
  have hits: "filter (\<lambda>r. coll_get (pk r) (cache_users ex_chat) = Some 0) (data_users ex_data3) =
                [ex_alice2]"
    "filter (\<lambda>r. coll_get (pk r) (cache_users ex_chat) = Some 0) (data_left_users ex_data3) = []"
    by (simp_all add: ex_chat_eval coll_get_def ex_data3_def ex_alice2_def ex_carol_def)
  note inst = Chat_patch_reuses_cached_users[of ex_data3 ex_chat]
  from inst m1 c1 have "coll_get (pk ex_alice2) (users (Chat_patch ex_data3 ex_chat)) = Some 0 \<and>
     coll_get (pk ex_alice2) (cache_users (Chat_patch ex_data3 ex_chat)) = Some 0" by blast
  moreover from inst h(3) have "heap (Chat_patch ex_data3 ex_chat) ! 0 =
     foldl User_patched (heap ex_chat ! 0)
          (filter (\<lambda>r. coll_get (pk r) (cache_users ex_chat) = Some 0)
             (data_users ex_data3 @ data_left_users ex_data3))" by blast
  ultimately show ?thesis using m1 m2 c1 c2 h after by (simp add: hits)
qed

section \<open>Properties of the typing indicator\<close>

lemmas typing_defs = startTyping_def startTyping_begin_def startTyping_resume_def stopTyping_def
  stopTyping_begin_def indicateActivity_def setTimeout_def setInterval_def clearTimer_def
  keepTypingAlive_def fire_def one_shot_timers_def repeating_timers_def

lemma ex_typing_eval:
  "ex_typing = ex_chat\<lparr>typing := True, disableTypingOnSend := Some True,
      stopTypingTimeout := Some 0, keepTypingAliveInterval := Some 1,
      net_log := [IndicateActivity ''t1'' True],
      timers := [(0, Timeout 10000 CallStopTyping), (1, Interval 9000 CallKeepTypingAlive)],
      next_timer := 2\<rparr>"
  by (simp add: ex_typing_def ex_opts_def typing_defs ex_chat_eval Let_def)

lemma ex_stopped_eval:
  "ex_stopped = ex_chat\<lparr>typing := False, disableTypingOnSend := Some True,
      stopTypingTimeout := Some 0, keepTypingAliveInterval := Some 1,
      net_log := [IndicateActivity ''t1'' True, IndicateActivity ''t1'' False],
      timers := [(0, Timeout 10000 CallStopTyping)],
      next_timer := 2\<rparr>"
  by (simp add: ex_stopped_def ex_typing_eval typing_defs ex_chat_eval Let_def)

lemma ex_typing_again_eval:
  "ex_typing_again = ex_chat\<lparr>typing := True, disableTypingOnSend := Some True,
      stopTypingTimeout := Some 2, keepTypingAliveInterval := Some 3,
      net_log := [IndicateActivity ''t1'' True, IndicateActivity ''t1'' False, IndicateActivity ''t1'' True],
      timers := [(0, Timeout 10000 CallStopTyping), (2, Timeout 10000 CallStopTyping),
                 (3, Interval 9000 CallKeepTypingAlive)],
      next_timer := 4\<rparr>"
  by (simp add: ex_typing_again_def ex_opts_def ex_stopped_eval typing_defs ex_chat_eval Let_def)

lemma ex_typing_twice_eval:
  "ex_typing_twice = ex_chat\<lparr>typing := True, disableTypingOnSend := Some True,
      stopTypingTimeout := Some 2, keepTypingAliveInterval := Some 3,
      net_log := [IndicateActivity ''t1'' True, IndicateActivity ''t1'' True],
      timers := [(0, Timeout 10000 CallStopTyping), (1, Interval 9000 CallKeepTypingAlive),
                 (2, Timeout 10000 CallStopTyping), (3, Interval 9000 CallKeepTypingAlive)],
      next_timer := 4\<rparr>"
  by (simp add: ex_typing_twice_def ex_opts_def ex_typing_eval typing_defs ex_chat_eval Let_def)

lemma ex_twice_stopped_eval:
  "ex_twice_stopped = ex_chat\<lparr>typing := False, disableTypingOnSend := Some True,
      stopTypingTimeout := Some 2, keepTypingAliveInterval := Some 3,
      net_log := [IndicateActivity ''t1'' True, IndicateActivity ''t1'' True,
                  IndicateActivity ''t1'' False],
      timers := [(0, Timeout 10000 CallStopTyping), (1, Interval 9000 CallKeepTypingAlive),
                 (2, Timeout 10000 CallStopTyping)],
      next_timer := 4\<rparr>"
  by (simp add: ex_twice_stopped_def ex_typing_twice_eval typing_defs ex_chat_eval Let_def)

text \<open>
  What \<^verbatim>\<open>stopTyping\<close> does in every state: it cancels the timer whose handle
  \<^verbatim>\<open>_keepTypingAliveInterval\<close> holds and no other. Right after a \<^verbatim>\<open>startTyping\<close> that is
  the repeating timer, and the one-shot timer just scheduled stays.
\<close>

lemma stopTyping_begin_effects:
  "typing (stopTyping_begin s) = False \<and>
   net_log (stopTyping_begin s) = net_log s @ [IndicateActivity (chat_id s) False] \<and>
   timers (stopTyping_begin s) =
     (case keepTypingAliveInterval s of
        Some h \<Rightarrow> filter (\<lambda>t. fst t \<noteq> h) (timers s)
      | None \<Rightarrow> timers s) \<and>
   stopTypingTimeout (stopTyping_begin s) = stopTypingTimeout s \<and>
   keepTypingAliveInterval (stopTyping_begin s) = keepTypingAliveInterval s"
  by (simp add: stopTyping_begin_def indicateActivity_def clearTimer_def Let_def split: option.splits)

lemma stopTyping_after_startTyping:
  "timers (snd (stopTyping r (snd (startTyping opts (Fulfilled ()) s)))) =
     filter (\<lambda>t. fst t \<noteq> Suc (next_timer s)) (timers s) @
       [(next_timer s,
         Timeout (case duration opts of Some n \<Rightarrow> if n = 0 then 10000 else n | None \<Rightarrow> 10000)
           CallStopTyping)]"
  by (simp add: typing_defs Let_def)

text \<open>
  Claim C5. \<^verbatim>\<open>stopTyping\<close> passes the handle of the repeating timer to \<^verbatim>\<open>clearTimeout\<close>
  and never reads \<^verbatim>\<open>_stopTypingTimeout\<close>. On the example chat, after \<^verbatim>\<open>startTyping()\<close> and
  \<^verbatim>\<open>stopTyping()\<close>: \<^verbatim>\<open>typing\<close> is false, one is-inactive signal has been sent and the
  repeating timer is gone, but the one-shot duration timer of that \<^verbatim>\<open>startTyping\<close>
  (handle 0) is still scheduled. When typing is started again and that timer fires, it
  ends the new session.
\<close>

theorem stopTyping_leaves_duration_timer:
  "typing ex_typing = True \<and>
   timers ex_typing = [(0, Timeout 10000 CallStopTyping), (1, Interval 9000 CallKeepTypingAlive)] \<and>
   typing ex_stopped = False \<and>
   net_log ex_stopped = net_log ex_typing @ [IndicateActivity ''t1'' False] \<and>
   stopTypingTimeout ex_stopped = Some 0 \<and>
   timers ex_stopped = [(0, Timeout 10000 CallStopTyping)] \<and>
   one_shot_timers ex_stopped = [0] \<and>
   repeating_timers ex_stopped = [] \<and>
   typing ex_typing_again = True \<and>
   typing (fire 0 ex_typing_again) = False \<and>
   timers (fire 0 ex_typing_again) = [(2, Timeout 10000 CallStopTyping)]"
  by (simp add: ex_typing_eval ex_stopped_eval ex_typing_again_eval typing_defs ex_chat_eval)

text \<open>
  What \<^verbatim>\<open>startTyping\<close> does in every state, typing or not: it schedules one more one-shot
  timer and one more repeating timer after those already scheduled and stores their
  handles over the previous ones.
\<close>

lemma startTyping_effects:
  "timers (startTyping_begin s) = timers s \<and>
   next_timer (startTyping_begin s) = next_timer s \<and>
   typing (startTyping_begin s) = True \<and>
   startTyping opts (Rejected e) s = (Rejected e, startTyping_begin s) \<and>
   startTyping opts (Fulfilled ()) s = (Fulfilled (), startTyping_resume opts (startTyping_begin s)) \<and>
   timers (startTyping_resume opts s) =
     timers s @
       [(next_timer s,
         Timeout (case duration opts of Some n \<Rightarrow> if n = 0 then 10000 else n | None \<Rightarrow> 10000)
           CallStopTyping),
        (Suc (next_timer s), Interval 9000 CallKeepTypingAlive)] \<and>
   stopTypingTimeout (startTyping_resume opts s) = Some (next_timer s) \<and>
   keepTypingAliveInterval (startTyping_resume opts s) = Some (Suc (next_timer s)) \<and>
   disableTypingOnSend (startTyping_resume opts s) =
     Some (case disableOnSend opts of Some b \<Rightarrow> b | None \<Rightarrow> True) \<and>
   typing (startTyping_resume opts s) = typing s \<and>
   timers (snd (startTyping opts (Fulfilled ()) s)) =
     timers s @
       [(next_timer s,
         Timeout (case duration opts of Some n \<Rightarrow> if n = 0 then 10000 else n | None \<Rightarrow> 10000)
           CallStopTyping),
        (Suc (next_timer s), Interval 9000 CallKeepTypingAlive)] \<and>
   stopTypingTimeout (snd (startTyping opts (Fulfilled ()) s)) = Some (next_timer s) \<and>
   keepTypingAliveInterval (snd (startTyping opts (Fulfilled ()) s)) = Some (Suc (next_timer s)) \<and>
   typing (snd (startTyping opts (Fulfilled ()) s)) = True \<and>
   one_shot_timers (snd (startTyping opts (Fulfilled ()) s)) = one_shot_timers s @ [next_timer s] \<and>
   repeating_timers (snd (startTyping opts (Fulfilled ()) s)) =
     repeating_timers s @ [Suc (next_timer s)]"
  by (simp add: typing_defs Let_def)

text \<open>
  Claim C6. \<^verbatim>\<open>startTyping\<close> stores the new handles over the old ones and clears
  nothing. On the example chat, after \<^verbatim>\<open>startTyping()\<close> twice: two one-shot timers and two
  repeating timers are scheduled, and the stored handles are those of the second pair.
  The one-shot timer of the first call (handle 0) then ends the session the second
  call started. After \<^verbatim>\<open>stopTyping()\<close> the repeating timer of the first call (handle 1)
  is still scheduled, and when it fires, \<^verbatim>\<open>_keepTypingAlive\<close> clears the stored handle,
  not this timer, which stays.
\<close>

theorem startTyping_twice_stacks_timers:
  "typing ex_typing = True \<and>
   one_shot_timers ex_typing = [0] \<and> repeating_timers ex_typing = [1] \<and>
   one_shot_timers ex_typing_twice = [0, 2] \<and> repeating_timers ex_typing_twice = [1, 3] \<and>
   stopTypingTimeout ex_typing_twice = Some 2 \<and>
   keepTypingAliveInterval ex_typing_twice = Some 3 \<and>
   typing ex_typing_twice = True \<and>
   typing (fire 0 ex_typing_twice) = False \<and>
   one_shot_timers ex_twice_stopped = [0, 2] \<and>
   repeating_timers ex_twice_stopped = [1] \<and>
   typing ex_twice_stopped = False \<and>
   repeating_timers (fire 1 ex_twice_stopped) = [1]"
  by (simp add: ex_typing_eval ex_typing_twice_eval ex_twice_stopped_eval typing_defs ex_chat_eval)

section \<open>Properties of approve\<close>

lemmas approve_defs = approve_def approve_begin_def approve_resume_def

text \<open>
  Claim C9, as the code has it. Every \<^verbatim>\<open>approve\<close> call sets \<^verbatim>\<open>pending\<close> to false and
  issues the network approve call before anything else, touching neither cache and
  emitting nothing until the call has ended. If the call fails, the error is passed on
  and nothing more happens. If it succeeds, the chat's id is a key of the active-chats
  cache (under the entry that was there, or else this chat) and not of the
  pending-chats cache, and exactly one \<^verbatim>\<open>messageCreate\<close> event has been emitted, with
  \<^verbatim>\<open>messages.first()\<close> as payload: the message inserted first, or \<^verbatim>\<open>undefined\<close> when
  there is none.
\<close>

theorem approve_effects:
  "pending (approve_begin s) = False \<and>
   net_log (approve_begin s) = net_log s @ [ApproveThread (chat_id s)] \<and>
   cache_chats (approve_begin s) = cache_chats s \<and>
   cache_pendingChats (approve_begin s) = cache_pendingChats s \<and>
   emitted (approve_begin s) = emitted s \<and>
   messages (approve_begin s) = messages s \<and>
   approve (Rejected e) s = (Rejected e, approve_begin s) \<and>
   approve (Fulfilled ()) s = (Fulfilled (), approve_resume (approve_begin s)) \<and>
   pending (approve_resume s) = pending s \<and>
   net_log (approve_resume s) = net_log s \<and>
   coll_has (chat_id s) (cache_chats (approve_resume s)) \<and>
   coll_get (chat_id s) (cache_chats (approve_resume s)) =
     (case coll_get (chat_id s) (cache_chats s) of Some c \<Rightarrow> Some c | None \<Rightarrow> Some (self_ref s)) \<and>
   \<not> coll_has (chat_id s) (cache_pendingChats (approve_resume s)) \<and>
   emitted (approve_resume s) = emitted s @ [MessageCreate (coll_first (messages s))] \<and>
   pending (snd (approve (Fulfilled ()) s)) = False \<and>
   net_log (snd (approve (Fulfilled ()) s)) = net_log s @ [ApproveThread (chat_id s)] \<and>
   coll_has (chat_id s) (cache_chats (snd (approve (Fulfilled ()) s))) \<and>
   \<not> coll_has (chat_id s) (cache_pendingChats (snd (approve (Fulfilled ()) s))) \<and>
   emitted (snd (approve (Fulfilled ()) s)) = emitted s @ [MessageCreate (coll_first (messages s))]"
  by (auto simp add: approve_defs Let_def coll_has_keys coll_keys_set coll_keys_delete coll_get_set
      coll_keys_iff split: option.splits)

theorem approve_effects_witness:
  "pending ex_pending = True \<and> coll_has ''t1'' (cache_pendingChats ex_pending) \<and>
   pending (snd (approve (Fulfilled ()) ex_pending)) = False \<and>
   net_log (snd (approve (Fulfilled ()) ex_pending)) = [ApproveThread ''t1''] \<and>
   coll_has ''t1'' (cache_chats (snd (approve (Fulfilled ()) ex_pending))) \<and>
   \<not> coll_has ''t1'' (cache_pendingChats (snd (approve (Fulfilled ()) ex_pending))) \<and>
   emitted (snd (approve (Fulfilled ()) ex_pending)) = [MessageCreate (Some (Message ''t1'' ex_item1))]"
proof -
  have before: "pending ex_pending = True" "coll_has ''t1'' (cache_pendingChats ex_pending)"
    "chat_id ex_pending = ''t1''" "net_log ex_pending = []" "emitted ex_pending = []"
    "coll_first (messages ex_pending) = Some (Message ''t1'' ex_item1)"
    by (simp_all add: ex_pending_def ex_chat_eval coll_defs)
  from approve_effects[of ex_pending] have
    "pending (snd (approve (Fulfilled ()) ex_pending)) = False \<and>
     net_log (snd (approve (Fulfilled ()) ex_pending)) = net_log ex_pending @ [ApproveThread (chat_id ex_pending)] \<and>
     coll_has (chat_id ex_pending) (cache_chats (snd (approve (Fulfilled ()) ex_pending))) \<and>
     \<not> coll_has (chat_id ex_pending) (cache_pendingChats (snd (approve (Fulfilled ()) ex_pending))) \<and>
     emitted (snd (approve (Fulfilled ()) ex_pending)) =
       emitted ex_pending @ [MessageCreate (coll_first (messages ex_pending))]"
    by blast
  with before show ?thesis by simp
qed

text \<open>
  The claim as stated, for every call, fails when the network call rejects: \<^verbatim>\<open>pending\<close>
  is false, but the chat is still listed as pending and not as active, and no event
  has been emitted.
\<close>

theorem approve_failure_counterexample:
  "fst (approve (Rejected (JsError ''network'')) ex_pending) = Rejected (JsError ''network'') \<and>
   pending (snd (approve (Rejected (JsError ''network'')) ex_pending)) = False \<and>
   coll_first (messages ex_pending) = Some (Message ''t1'' ex_item1) \<and>
   emitted (snd (approve (Rejected (JsError ''network'')) ex_pending)) = [] \<and>
   emitted (snd (approve (Rejected (JsError ''network'')) ex_pending)) \<noteq>
     [MessageCreate (Some (Message ''t1'' ex_item1))] \<and>
   \<not> coll_has ''t1'' (cache_chats (snd (approve (Rejected (JsError ''network'')) ex_pending))) \<and>
   coll_has ''t1'' (cache_pendingChats (snd (approve (Rejected (JsError ''network'')) ex_pending)))"
  by (simp add: ex_pending_def approve_defs ex_chat_eval coll_defs Let_def)

section \<open>Properties of the send methods\<close>






lemma fresh_promise_pending:
  assumes "\<forall>c\<in>set (settled s). fst c < next_promise s"
  shows "map_of (settled s) (next_promise s) = None"
proof -
  have "next_promise s \<notin> fst ` set (settled s)" using assms by auto
  then show ?thesis by (simp add: map_of_eq_None_iff)
qed




text \<open>
  Claim C3, as the code has it. When the broadcast of a send method rejects, no code of
  Chat runs: the state is as the call left it. The call has issued one broadcast, made
  no settle call and registered no waiter, so the promise returned to the caller stays
  pending for good: it is neither resolved nor rejected, and the error does not reach
  the caller. (The hypothesis says that the settle calls so far are on promises that
  exist.)
\<close>

theorem send_broadcast_failure_pending:
  "sendMessage_settled p (Rejected e) s = s \<and>
   sendVoice_settled p (Rejected e) s = s \<and>
   sendPhoto_settled p (Rejected e) s = s \<and>
   net_log (snd (sendMessage_call content s)) = net_log s @ [BroadcastText (chat_id s) content] \<and>
   net_log (snd (sendVoice_call buffer s)) = net_log s @ [BroadcastVoice (chat_id s) buffer] \<and>
   net_log (snd (sendPhoto (VerifyFulfils file) (Rejected e) s)) =
     net_log s @ [BroadcastPhoto (chat_id s) file] \<and>
   settled (snd (sendMessage_call content s)) = settled s \<and>
   settled (snd (sendVoice_call buffer s)) = settled s \<and>
   settled (snd (sendPhoto (VerifyFulfils file) (Rejected e) s)) = settled s \<and>
   sentMessagesPromises (snd (sendMessage_call content s)) = sentMessagesPromises s \<and>
   sentMessagesPromises (snd (sendVoice_call buffer s)) = sentMessagesPromises s \<and>
   sentMessagesPromises (snd (sendPhoto (VerifyFulfils file) (Rejected e) s)) = sentMessagesPromises s \<and>
   ((\<forall>c\<in>set (settled s). fst c < next_promise s) \<longrightarrow>
      promise_state (fst (sendMessage_call content s))
        (sendMessage_settled (fst (sendMessage_call content s)) (Rejected e)
           (snd (sendMessage_call content s))) = None \<and>
      promise_state (fst (sendVoice_call buffer s))
        (sendVoice_settled (fst (sendVoice_call buffer s)) (Rejected e)
           (snd (sendVoice_call buffer s))) = None \<and>
      promise_state (fst (sendPhoto (VerifyFulfils file) (Rejected e) s))
        (snd (sendPhoto (VerifyFulfils file) (Rejected e) s)) = None)"
  by (simp add: sendMessage_settled_def sendVoice_settled_def sendPhoto_settled_def
      sendMessage_call_def sendVoice_call_def sendPhoto_def sendPhoto_call_def
      sendPhoto_verified_def new_Promise_def promise_state_def fresh_promise_pending)

theorem send_broadcast_failure_pending_witness:
  "settled ex_resolved = [(0, Resolve (Some (Message ''t1'' ex_item2)))] \<and>
   next_promise ex_resolved = 1 \<and>
   fst (sendMessage_call ''again'' ex_resolved) = 1 \<and>
   promise_state 1
     (sendMessage_settled 1 (Rejected (JsError ''network'')) (snd (sendMessage_call ''again'' ex_resolved)))
     = None \<and>
   net_log (snd (sendMessage_call ''again'' ex_resolved)) =
     [BroadcastText ''t1'' ''hey'', BroadcastText ''t1'' ''again'']"
proof -
  have before: "settled ex_resolved = [(0, Resolve (Some (Message ''t1'' ex_item2)))]"
    "next_promise ex_resolved = 1" "net_log ex_resolved = [BroadcastText ''t1'' ''hey'']"
    "chat_id ex_resolved = ''t1''"
    by (simp_all add: ex_resolved_eval ex_chat2_eval)
  then have wf: "\<forall>c\<in>set (settled ex_resolved). fst c < next_promise ex_resolved" by simp
  have p: "fst (sendMessage_call ''again'' ex_resolved) = 1"
    by (simp add: sendMessage_call_def new_Promise_def before)
  from send_broadcast_failure_pending[of _ "JsError ''network''" ex_resolved "''again''"] wf p before
  show ?thesis by simp
qed

text \<open>
  The claim as stated, that the returned operation is rejected with the error, fails
  for a \<^verbatim>\<open>sendMessage\<close> on the example chat whose broadcast rejects: the returned
  promise is pending.
\<close>

theorem send_failure_not_rejected_counterexample:
  "fst (sendMessage_call ''hey'' ex_chat) = 0 \<and>
   snd (sendMessage_call ''hey'' ex_chat) = ex_sent \<and>
   promise_state 0 (sendMessage_settled 0 (Rejected (JsError ''network'')) ex_sent) = None \<and>
   promise_state 0 (sendMessage_settled 0 (Rejected (JsError ''network'')) ex_sent) \<noteq>
     Some (Reject (JsError ''network'')) \<and>
   settle_calls 0 (sendMessage_settled 0 (Rejected (JsError ''network'')) ex_sent) = []"
  by (simp add: ex_sent_def send_defs ex_chat_eval Let_def)

text \<open>
  Claim C4, as the code has it. When \<^verbatim>\<open>_verify()\<close> fails, \<^verbatim>\<open>sendPhoto\<close> issues no network
  call and changes nothing of the chat: the state afterwards is the state before with
  one more promise. If \<^verbatim>\<open>_verify()\<close> threw, that promise is rejected with the error; if
  the promise \<^verbatim>\<open>_verify()\<close> returned rejects, the promise \<^verbatim>\<open>sendPhoto\<close> returned is never
  settled.
\<close>

theorem sendPhoto_unresolvable_attachment:
  "sendPhoto (VerifyRejects e) r s = (next_promise s, s\<lparr>next_promise := Suc (next_promise s)\<rparr>) \<and>
   sendPhoto (VerifyThrows e) r s =
     (next_promise s,
      s\<lparr>next_promise := Suc (next_promise s), settled := settled s @ [(next_promise s, Reject e)]\<rparr>) \<and>
   ((\<forall>c\<in>set (settled s). fst c < next_promise s) \<longrightarrow>
      promise_state (next_promise s) (snd (sendPhoto (VerifyRejects e) r s)) = None \<and>
      promise_state (next_promise s) (snd (sendPhoto (VerifyThrows e) r s)) = Some (Reject e))"
  by (simp add: sendPhoto_def sendPhoto_call_def sendPhoto_verified_def new_Promise_def reject_def
      promise_state_def fresh_promise_pending map_add_Some_iff)

theorem sendPhoto_unresolvable_attachment_witness:
  "settled ex_resolved = [(0, Resolve (Some (Message ''t1'' ex_item2)))] \<and>
   next_promise ex_resolved = 1 \<and>
   fst (sendPhoto (VerifyRejects (JsError ''unreadable'')) (Fulfilled ''m9'') ex_resolved) = 1 \<and>
   net_log (snd (sendPhoto (VerifyRejects (JsError ''unreadable'')) (Fulfilled ''m9'') ex_resolved)) =
     net_log ex_resolved \<and>
   messages (snd (sendPhoto (VerifyRejects (JsError ''unreadable'')) (Fulfilled ''m9'') ex_resolved)) =
     messages ex_resolved \<and>
   promise_state 1 (snd (sendPhoto (VerifyRejects (JsError ''unreadable'')) (Fulfilled ''m9'') ex_resolved))
     = None \<and>
   promise_state 1 (snd (sendPhoto (VerifyThrows (JsError ''unsupported'')) (Fulfilled ''m9'') ex_resolved))
     = Some (Reject (JsError ''unsupported''))"
proof -
  have before: "settled ex_resolved = [(0, Resolve (Some (Message ''t1'' ex_item2)))]"
    "next_promise ex_resolved = 1"
    by (simp_all add: ex_resolved_eval ex_chat2_eval)
  then have wf: "\<forall>c\<in>set (settled ex_resolved). fst c < next_promise ex_resolved" by simp
  from sendPhoto_unresolvable_attachment[of "JsError ''unreadable''" "Fulfilled ''m9''" ex_resolved] wf before
  have "fst (sendPhoto (VerifyRejects (JsError ''unreadable'')) (Fulfilled ''m9'') ex_resolved) = 1 \<and>
   net_log (snd (sendPhoto (VerifyRejects (JsError ''unreadable'')) (Fulfilled ''m9'') ex_resolved)) =
     net_log ex_resolved \<and>
   messages (snd (sendPhoto (VerifyRejects (JsError ''unreadable'')) (Fulfilled ''m9'') ex_resolved)) =
     messages ex_resolved \<and>
   promise_state 1 (snd (sendPhoto (VerifyRejects (JsError ''unreadable'')) (Fulfilled ''m9'') ex_resolved))
     = None" by (simp add: promise_state_def)
  moreover from sendPhoto_unresolvable_attachment[of "JsError ''unsupported''" "Fulfilled ''m9''" ex_resolved] wf before
  have "promise_state 1 (snd (sendPhoto (VerifyThrows (JsError ''unsupported'')) (Fulfilled ''m9'') ex_resolved))
     = Some (Reject (JsError ''unsupported''))" by (simp add: promise_state_def)
  ultimately show ?thesis using before by simp
qed

text \<open>
  The claim as stated, that the returned operation fails with the error, does not hold
  when the promise of \<^verbatim>\<open>_verify()\<close> rejects: the promise \<^verbatim>\<open>sendPhoto\<close> returned is
  pending, and no call was issued.
\<close>

theorem sendPhoto_verify_rejects_counterexample:
  "fst (sendPhoto (VerifyRejects (JsError ''unreadable'')) (Fulfilled ''m9'') ex_chat) = 0 \<and>
   promise_state 0 (snd (sendPhoto (VerifyRejects (JsError ''unreadable'')) (Fulfilled ''m9'') ex_chat)) = None \<and>
   promise_state 0 (snd (sendPhoto (VerifyRejects (JsError ''unreadable'')) (Fulfilled ''m9'') ex_chat)) \<noteq>
     Some (Reject (JsError ''unreadable'')) \<and>
   settle_calls 0 (snd (sendPhoto (VerifyRejects (JsError ''unreadable'')) (Fulfilled ''m9'') ex_chat)) = [] \<and>
   net_log (snd (sendPhoto (VerifyRejects (JsError ''unreadable'')) (Fulfilled ''m9'') ex_chat)) = []"
  by (simp add: sendPhoto_def sendPhoto_call_def sendPhoto_verified_def send_defs ex_chat_eval Let_def)

end
